theory Spec2Isabelle
  imports Complex_Main "HOL-Library.Word" "HOL-Library.Signed_Division" "HOL-Library.Sublist"
begin

unbundle bit_operations_syntax

section \<open>Errors\<close>

text \<open>
  A Go \<open>error\<close> value is its message. A function returning \<open>(T, error)\<close> is modelled
  with the sum \<open>error + T\<close> (\<open>Inl\<close> the error), and one returning only \<open>error\<close> with
  \<open>error option\<close> (\<open>None\<close> for \<open>nil\<close>).
\<close>

datatype error = Err string

section \<open>File-system events (fsnotify)\<close>

text \<open>
  An fsnotify event is a path and a bit mask of operations. The mask is a 32-bit
  unsigned integer; the five bits are the library's constants \<open>1 << iota\<close>.
\<close>

type_synonym Op = "32 word"

definition Create :: Op where "Create = 1"
definition Write :: Op where "Write = 2"
definition Remove :: Op where "Remove = 4"
definition Rename :: Op where "Rename = 8"
definition Chmod :: Op where "Chmod = 16"

record Event =
  Name :: string
  Op :: Op

section \<open>commands/hugo.go: pickOneWriteOrCreatePath\<close>

text \<open>
  The condition of the loop body: the event carries the Write bit or the Create bit.
\<close>

definition isWriteOrCreate :: "Event \<Rightarrow> bool" where
  "isWriteOrCreate ev \<longleftrightarrow> (Op ev AND Write = Write \<or> Op ev AND Create = Create)"

text \<open>
  The \<open>for _, ev := range events\<close> loop, with the local variable \<open>name\<close> as
  accumulator. \<open>len\<close> of a Go string counts bytes, as \<open>length\<close> does here.
\<close>

fun pickLoop :: "Event list \<Rightarrow> string \<Rightarrow> string" where
  "pickLoop [] name = name"
| "pickLoop (ev # evs) name =
     (if isWriteOrCreate ev \<and> length (Name ev) > length name
      then pickLoop evs (Name ev)
      else pickLoop evs name)"

definition pickOneWriteOrCreatePath :: "Event list \<Rightarrow> string" where
  "pickOneWriteOrCreatePath events = pickLoop events ''''"

text \<open>
  The position the loop settles on, written as a property of the list: the result is
  the name of a qualifying event \<open>e\<close>, every qualifying event before \<open>e\<close> has a
  strictly shorter name and every qualifying event after it a name that is not longer.
\<close>

definition earliestLongest :: "Event list \<Rightarrow> string \<Rightarrow> bool" where
  "earliestLongest evs r \<longleftrightarrow>
     (\<exists>pre e post. evs = pre @ e # post \<and> isWriteOrCreate e \<and> r = Name e \<and>
        (\<forall>x \<in> set pre. isWriteOrCreate x \<longrightarrow> length (Name x) < length (Name e)) \<and>
        (\<forall>x \<in> set post. isWriteOrCreate x \<longrightarrow> length (Name x) \<le> length (Name e)))"

section \<open>Go integers\<close>

text \<open>
  Go's \<open>int\<close> is a 64-bit two's complement integer on the platforms Hugo is built for.
  It is modelled as an \<open>int\<close> in the range \<open>-2^63 ..< 2^63\<close>; every arithmetic
  operation wraps its mathematical result back into the range, and division truncates
  towards zero (\<open>sdiv\<close>).
\<close>

definition wrap64 :: "int \<Rightarrow> int" where
  "wrap64 k = (k + 2 ^ 63) mod 2 ^ 64 - 2 ^ 63"

definition go_add :: "int \<Rightarrow> int \<Rightarrow> int" where
  "go_add a b = wrap64 (a + b)"

definition go_mul :: "int \<Rightarrow> int \<Rightarrow> int" where
  "go_mul a b = wrap64 (a * b)"

definition go_div :: "int \<Rightarrow> int \<Rightarrow> int" where
  "go_div a b = wrap64 (a sdiv b)"

section \<open>Strings and paths (Go standard library)\<close>

text \<open>
  Strings are byte lists, read as UTF-8 where the source reads runes.
  \<open>utf8.DecodeRuneInString\<close> gives the code point at the head of a string and its width in
  bytes: an ASCII byte is itself; a lead byte \<open>C2..DF\<close>, \<open>E0..EF\<close>, \<open>F0..F4\<close> asks for one,
  two, three continuation bytes \<open>80..BF\<close>, the first of them in a narrower range after
  \<open>E0\<close>, \<open>ED\<close>, \<open>F0\<close> and \<open>F4\<close> (no overlong form, no surrogate, nothing above
  \<open>U+10FFFF\<close>); anything else is \<open>RuneError\<close> (\<open>U+FFFD\<close>) of width 1, and the empty
  string is \<open>RuneError\<close> of width 0.
\<close>

type_synonym rune = int

definition RuneError :: rune where
  "RuneError = 0xFFFD"

definition isCont :: "int \<Rightarrow> bool" where
  "isCont b \<longleftrightarrow> 0x80 \<le> b \<and> b \<le> 0xBF"

fun DecodeRuneInString :: "string \<Rightarrow> rune \<times> nat" where
  "DecodeRuneInString [] = (RuneError, 0)"
| "DecodeRuneInString (c # cs) =
     (let s0 = (of_char c :: int) in
      if s0 < 0x80 then (s0, 1)
      else if s0 < 0xC2 \<or> 0xF4 < s0 then (RuneError, 1)
      else
        (let sz = (if s0 < 0xE0 then 2 else if s0 < 0xF0 then 3 else 4 :: nat);
             lo = (if s0 = 0xE0 then 0xA0 else if s0 = 0xF0 then 0x90 else 0x80 :: int);
             hi = (if s0 = 0xED then 0x9F else if s0 = 0xF4 then 0x8F else 0xBF :: int);
             bs = map of_char (take (sz - 1) cs)
         in if length bs < sz - 1 then (RuneError, 1)
            else if hd bs < lo \<or> hi < hd bs then (RuneError, 1)
            else if \<not> list_all isCont (tl bs) then (RuneError, 1)
            else (foldl (\<lambda>r b. r * 64 + b mod 64)
                    (s0 mod (if sz = 2 then 32 else if sz = 3 then 16 else 8)) bs, sz)))"

text \<open>
  \<open>utf8.DecodeLastRuneInString\<close>: an ASCII last byte is itself. Otherwise the source
  steps back from the byte before the last, over at most three bytes (\<open>lim = end - 4\<close>),
  to the nearest byte that is not a continuation byte, or to \<open>lim\<close> when there is
  none, decodes from there, and answers \<open>RuneError\<close> of width 1 unless the decoded
  rune ends exactly at the end of the string.
\<close>

definition DecodeLastRuneInString :: "string \<Rightarrow> rune \<times> nat" where
  "DecodeLastRuneInString s =
     (if s = [] then (RuneError, 0)
      else if (of_char (last s) :: int) < 0x80 then (of_char (last s), 1)
      else
        (let t = drop (length s - 4) s;
             back = takeWhile (\<lambda>c. isCont (of_char c)) (rev (butlast t));
             seg = (if length back < length (butlast t) then drop (length t - length back - 2) t else t)
         in if snd (DecodeRuneInString seg) \<noteq> length seg then (RuneError, 1)
            else DecodeRuneInString seg))"

text \<open>
  \<open>unicode.IsSpace\<close>: in Latin-1 the characters tab, line feed, vertical tab, form feed,
  carriage return, space, \<open>U+0085\<close> and \<open>U+00A0\<close>; beyond Latin-1 the code points with
  the property White_Space: \<open>U+1680\<close>, \<open>U+2000..U+200A\<close>, \<open>U+2028\<close>, \<open>U+2029\<close>,
  \<open>U+202F\<close>, \<open>U+205F\<close>, \<open>U+3000\<close>.
\<close>

definition IsSpace :: "rune \<Rightarrow> bool" where
  "IsSpace r \<longleftrightarrow>
     r \<in> {0x09, 0x0A, 0x0B, 0x0C, 0x0D, 0x20, 0x85, 0xA0, 0x1680, 0x2028, 0x2029, 0x202F, 0x205F, 0x3000}
     \<or> (0x2000 \<le> r \<and> r \<le> 0x200A)"

text \<open>
  \<open>strings.TrimSpace(s)\<close> is \<open>TrimFunc(s, unicode.IsSpace)\<close>: runes are taken off the
  front while they are white space, then off the back. \<open>skip\<close> counts the bytes of a
  white-space rune still to be passed over; \<open>TrimRightFunc\<close> runs over the reversed
  string and decodes the last rune of what is left.
\<close>

fun TrimLeftFunc :: "nat \<Rightarrow> string \<Rightarrow> string" where
  "TrimLeftFunc skip [] = []"
| "TrimLeftFunc skip (c # cs) =
     (if skip > 0 then TrimLeftFunc (skip - 1) cs
      else if IsSpace (fst (DecodeRuneInString (c # cs)))
      then TrimLeftFunc (snd (DecodeRuneInString (c # cs)) - 1) cs
      else c # cs)"

fun TrimRightFunc :: "nat \<Rightarrow> string \<Rightarrow> string" where
  "TrimRightFunc skip [] = []"
| "TrimRightFunc skip (c # cs) =
     (if skip > 0 then TrimRightFunc (skip - 1) cs
      else if IsSpace (fst (DecodeLastRuneInString (rev (c # cs))))
      then TrimRightFunc (snd (DecodeLastRuneInString (rev (c # cs))) - 1) cs
      else c # cs)"

definition TrimSpace :: "string \<Rightarrow> string" where
  "TrimSpace s = rev (TrimRightFunc 0 (rev (TrimLeftFunc 0 s)))"

definition HasSuffix :: "string \<Rightarrow> string \<Rightarrow> bool" where
  "HasSuffix s suf \<longleftrightarrow> suffix suf s"

definition HasPrefix :: "string \<Rightarrow> string \<Rightarrow> bool" where
  "HasPrefix s pre \<longleftrightarrow> prefix pre s"

text \<open>\<open>strings.Split(s, "/")\<close>: the pieces between slashes, \<open>[""]\<close> for the empty string.\<close>

fun splitSlash :: "string \<Rightarrow> string list" where
  "splitSlash [] = [[]]"
| "splitSlash (c # cs) =
     (if c = CHR ''/'' then [] # splitSlash cs
      else (case splitSlash cs of [] \<Rightarrow> [[c]] | w # ws \<Rightarrow> (c # w) # ws))"

fun joinSlash :: "string list \<Rightarrow> string" where
  "joinSlash [] = []"
| "joinSlash [x] = x"
| "joinSlash (x # y # ys) = x @ ''/'' @ joinSlash (y # ys)"

text \<open>
  \<open>path.Clean\<close> on the elements of a path: empty elements and \<open>.\<close> are dropped, a
  \<open>..\<close> removes the element before it, stays when there is none to remove in a
  relative path, and is dropped at the root. \<open>acc\<close> holds the kept elements, last first.
\<close>

fun cleanElems :: "bool \<Rightarrow> string list \<Rightarrow> string list \<Rightarrow> string list" where
  "cleanElems rooted [] acc = rev acc"
| "cleanElems rooted (c # cs) acc =
     (if c = '''' \<or> c = ''.'' then cleanElems rooted cs acc
      else if c = ''..'' then
        (case acc of
           [] \<Rightarrow> if rooted then cleanElems rooted cs [] else cleanElems rooted cs [''..'']
         | a # as \<Rightarrow> if a = ''..'' then cleanElems rooted cs (''..'' # a # as)
                     else cleanElems rooted cs as)
      else cleanElems rooted cs (c # acc))"

definition path_Clean :: "string \<Rightarrow> string" where
  "path_Clean p =
     (let rooted = HasPrefix p ''/'';
          out = joinSlash (cleanElems rooted (splitSlash p) [])
      in if rooted then ''/'' @ out else if out = '''' then ''.'' else out)"

text \<open>
  \<open>path.Join\<close>: empty elements are ignored, the rest joined with a slash and cleaned;
  the empty string when every element is empty. \<open>filepath.Join\<close> is the same function
  where the separator is the slash.
\<close>

definition path_Join :: "string list \<Rightarrow> string" where
  "path_Join elems =
     (let ne = filter (\<lambda>e. e \<noteq> '''') elems
      in if ne = [] then '''' else path_Clean (joinSlash ne))"

text \<open>\<open>path.Split\<close>: the path up to and including its last slash, and the rest.\<close>

definition path_Split :: "string \<Rightarrow> string \<times> string" where
  "path_Split p =
     (let file = rev (takeWhile (\<lambda>c. c \<noteq> CHR ''/'') (rev p))
      in (take (length p - length file) p, file))"

text \<open>
  \<open>filepath.Ext\<close>: the suffix of the last element from its last dot on, empty when
  that element has no dot.
\<close>

definition filepath_Ext :: "string \<Rightarrow> string" where
  "filepath_Ext p =
     (let file = snd (path_Split p)
      in if CHR ''.'' \<in> set file
         then CHR ''.'' # rev (takeWhile (\<lambda>c. c \<noteq> CHR ''.'') (rev file))
         else '''')"

text \<open>
  \<open>filepath.Base\<close>: the last element after trailing slashes are removed; \<open>.\<close> for the
  empty path and \<open>/\<close> for a path of slashes only.
\<close>

definition filepath_Base :: "string \<Rightarrow> string" where
  "filepath_Base p =
     (if p = '''' then ''.''
      else (let q = rev (dropWhile (\<lambda>c. c = CHR ''/'') (rev p))
            in if q = '''' then ''/'' else snd (path_Split q)))"

section \<open>src/unnamed/part_001 (package hugolib): the page, ReadFrom, analyzePage and TargetPath\<close>

record PageMeta =
  WordCount :: int
  FuzzyWordCount :: int
  ReadingTime :: int
  Weight :: int

text \<open>
  The fields of \<open>Page\<close> (with its embedded \<open>File\<close>, \<open>PageMeta\<close> and \<open>Node\<close>) that the
  functions below read or write. \<open>Permalinks\<close> is the site's map from a section to its
  permalink pattern, reached in the source as \<open>p.Site.Permalinks\<close>.
\<close>

type_synonym PathPattern = string

record Page = PageMeta +
  Url :: string
  Slug :: string
  Section :: string
  FileName :: string
  Extension :: string
  Dir :: string
  plain :: string
  rawContent :: string
  Permalinks :: "string \<rightharpoonup> PathPattern"

text \<open>\<open>strings.Replace(s, old, new, -1)\<close> for a non-empty \<open>old\<close>: left to right, no overlaps.
  \<open>skip\<close> counts the bytes of a match still to be passed over.\<close>

fun replaceFrom :: "string \<Rightarrow> string \<Rightarrow> nat \<Rightarrow> string \<Rightarrow> string" where
  "replaceFrom old new skip [] = []"
| "replaceFrom old new skip (c # cs) =
     (if skip > 0 then replaceFrom old new (skip - 1) cs
      else if prefix old (c # cs) then new @ replaceFrom old new (length old - 1) cs
      else c # replaceFrom old new 0 cs)"

definition Replace :: "string \<Rightarrow> string \<Rightarrow> string \<Rightarrow> string" where
  "Replace s old new = replaceFrom old new 0 s"

text \<open>
  The tag-removing walk of \<open>StripHTML\<close>, with the flag \<open>inTag\<close>. The source ranges
  over the runes of the string: \<open>range\<close> decodes UTF-8 and yields \<open>RuneError\<close> for each
  byte that starts no valid encoding, and \<open>WriteRune\<close> writes a rune in UTF-8, so such
  a byte comes out as the three bytes \<open>EF BF BD\<close> and every other rune as it came in.
  \<open>skip\<close> counts the bytes of the current rune still to be passed over.
\<close>

definition WriteRune :: "string \<Rightarrow> string" where
  "WriteRune s =
     (if DecodeRuneInString s = (RuneError, 1) then [CHR 0xEF, CHR 0xBF, CHR 0xBD]
      else take (snd (DecodeRuneInString s)) s)"

fun stripTags :: "bool \<Rightarrow> nat \<Rightarrow> string \<Rightarrow> string" where
  "stripTags inTag skip [] = []"
| "stripTags inTag skip (c # cs) =
     (if skip > 0 then stripTags inTag (skip - 1) cs
      else if c = CHR ''<'' then stripTags True 0 cs
      else if c = CHR ''>'' then stripTags False 0 cs
      else if \<not> inTag
      then WriteRune (c # cs) @ stripTags inTag (snd (DecodeRuneInString (c # cs)) - 1) cs
      else stripTags inTag (snd (DecodeRuneInString (c # cs)) - 1) cs)"

definition StripHTML :: "string \<Rightarrow> string" where
  "StripHTML s =
     (if \<not> (CHR ''<'' \<in> set s \<or> CHR ''>'' \<in> set s) then s
      else (let s1 = Replace s [CHR 0x0A] '' '';
                s2 = Replace s1 ''</p>'' ('' '' @ [CHR 0x0A]);
                s3 = Replace s2 ''<br>'' ('' '' @ [CHR 0x0A]);
                s4 = Replace s3 ''</br>'' ('' '' @ [CHR 0x0A])
            in stripTags False 0 s4))"

text \<open>
  \<open>Plain\<close> fills the cached plain text on first use and returns it with the page.
  \<open>StripShortcodes\<close> is defined outside the files at hand and is a parameter.
\<close>

definition Plain :: "(string \<Rightarrow> string) \<Rightarrow> Page \<Rightarrow> string \<times> Page" where
  "Plain StripShortcodes p =
     (if length (plain p) = 0
      then (let p' = p\<lparr>plain := StripHTML (StripShortcodes (rawContent p))\<rparr> in (plain p', p'))
      else (plain p, p))"

text \<open>
  \<open>analyzePage\<close> stores \<open>TotalWords(p.Plain())\<close> and derives the two other numbers.
  \<open>TotalWords\<close> lives in another package and is a parameter.
\<close>

definition analyzePage :: "(string \<Rightarrow> string) \<Rightarrow> (string \<Rightarrow> int) \<Rightarrow> Page \<Rightarrow> Page" where
  "analyzePage StripShortcodes TotalWords p =
     (let (s, p0) = Plain StripShortcodes p;
          p1 = p0\<lparr>WordCount := TotalWords s\<rparr>;
          p2 = p1\<lparr>FuzzyWordCount := go_mul (go_div (go_add (WordCount p1) 100) 100) 100\<rparr>
      in p2\<lparr>ReadingTime := go_div (go_add (WordCount p2) 212) 213\<rparr>)"

text \<open>\<open>guessSection\<close>: the directory part of the file name, without a leading \<open>content\<close>.\<close>

definition guessSection :: "Page \<Rightarrow> Page" where
  "guessSection p =
     (if Section p = '''' then
        (let x = butlast (splitSlash (FileName p))
         in if length x = 0 then p
            else (let x' = (if hd x = ''content'' then tl x else x)
                  in p\<lparr>Section := path_Join x'\<rparr>))
      else p)"

definition newPage :: "string \<Rightarrow> Page" where
  "newPage filename =
     guessSection
       \<lparr>WordCount = 0, FuzzyWordCount = 0, ReadingTime = 0, Weight = 0,
        Url = '''', Slug = '''', Section = '''', FileName = filename, Extension = ''html'',
        Dir = '''', plain = '''', rawContent = '''', Permalinks = Map.empty\<rparr>"

text \<open>
  \<open>ReadFrom\<close>: an empty name and a failing \<open>parse\<close> are the two error returns; otherwise
  the parsed page is analysed. \<open>parse\<close> reads the front matter and the body with the
  parser package and is a parameter, as is the reader's content \<open>buf\<close>.
\<close>

definition ReadFrom ::
  "('buf \<Rightarrow> Page \<Rightarrow> error + Page) \<Rightarrow> (string \<Rightarrow> string) \<Rightarrow> (string \<Rightarrow> int) \<Rightarrow>
   'buf \<Rightarrow> string \<Rightarrow> error + Page" where
  "ReadFrom parse StripShortcodes TotalWords buf name =
     (if length name = 0 then Inl (Err ''Zero length page name'')
      else (case parse buf (newPage name) of
              Inl e \<Rightarrow> Inl e
            | Inr p \<Rightarrow> Inr (analyzePage StripShortcodes TotalWords p)))"

text \<open>
  \<open>TargetPath\<close>. \<open>Expand\<close> (the expansion of a permalink pattern for a page) and
  \<open>replaceExtension\<close> are defined outside the files at hand and are parameters.
\<close>

definition withIndex :: "string \<Rightarrow> string" where
  "withIndex outfile = (if HasSuffix outfile ''/'' then outfile @ ''index.html'' else outfile)"

definition TargetPath ::
  "(PathPattern \<Rightarrow> Page \<Rightarrow> error + string) \<Rightarrow> (string \<Rightarrow> string \<Rightarrow> string) \<Rightarrow> Page \<Rightarrow> string" where
  "TargetPath Expand replaceExtension p =
     (if length (TrimSpace (Url p)) > 2 then withIndex (TrimSpace (Url p))
      else
        (case (case Permalinks p (Section p) of
                 None \<Rightarrow> None
               | Some override \<Rightarrow>
                   (case Expand override p of Inl err \<Rightarrow> None | Inr outfile \<Rightarrow> Some outfile)) of
           Some outfile \<Rightarrow> withIndex outfile
         | None \<Rightarrow>
             (let outfile =
                (if length (TrimSpace (Slug p)) > 0
                 then TrimSpace (Slug p) @ ''.'' @ Extension p
                 else (let t = snd (path_Split (FileName p))
                       in replaceExtension (TrimSpace t) (Extension p)))
              in path_Join [Dir p, TrimSpace outfile])))"

text \<open>
  Stand-ins for the parameters, used to run the functions on concrete pages. The words
  of a text are counted as its fields, the runs of runes that are not white space.
\<close>

definition sampleExpand :: "PathPattern \<Rightarrow> Page \<Rightarrow> error + string" where
  "sampleExpand pattern p = (if pattern = '''' then Inl (Err ''empty pattern'') else Inr (pattern @ Slug p @ ''/''))"

definition sampleReplaceExtension :: "string \<Rightarrow> string \<Rightarrow> string" where
  "sampleReplaceExtension file ext =
     (if CHR ''.'' \<in> set file
      then rev (tl (dropWhile (\<lambda>c. c \<noteq> CHR ''.'') (rev file))) @ ''.'' @ ext
      else file @ ''.'' @ ext)"

fun countFields :: "bool \<Rightarrow> nat \<Rightarrow> string \<Rightarrow> nat" where
  "countFields inWord skip [] = 0"
| "countFields inWord skip (c # cs) =
     (if skip > 0 then countFields inWord (skip - 1) cs
      else if IsSpace (fst (DecodeRuneInString (c # cs)))
      then countFields False (snd (DecodeRuneInString (c # cs)) - 1) cs
      else (if inWord then 0 else 1) + countFields True (snd (DecodeRuneInString (c # cs)) - 1) cs)"

definition sampleTotalWords :: "string \<Rightarrow> int" where
  "sampleTotalWords s = int (countFields False 0 s)"

definition sampleParse :: "string \<Rightarrow> Page \<Rightarrow> error + Page" where
  "sampleParse buf p = (if buf = '''' then Inl (Err ''EOF'') else Inr (p\<lparr>rawContent := buf\<rparr>))"

text \<open>The derived counts as \<open>analyzePage\<close> leaves them, as a property of a page.\<close>

definition countsDerived :: "Page \<Rightarrow> bool" where
  "countsDerived p \<longleftrightarrow>
     FuzzyWordCount p = (WordCount p div 100) * 100 + 100 \<and>
     0 < FuzzyWordCount p \<and> 100 dvd FuzzyWordCount p \<and>
     WordCount p < FuzzyWordCount p \<and> FuzzyWordCount p \<le> WordCount p + 100 \<and>
     ReadingTime p = \<lceil>real_of_int (WordCount p) / 213\<rceil> \<and>
     (WordCount p = 0 \<longrightarrow> ReadingTime p = 0)"

text \<open>Concrete inputs.\<close>

definition sampleEvents :: "Event list" where
  "sampleEvents =
     [\<lparr>Name = ''content'', Op = Write\<rparr>,
      \<lparr>Name = ''content/a.md'', Op = Create OR Chmod\<rparr>,
      \<lparr>Name = ''content/b.md'', Op = Write\<rparr>,
      \<lparr>Name = ''content/removed.md'', Op = Remove\<rparr>]"

definition shortUrlPage :: Page where
  "shortUrlPage = (newPage ''content/posts/a.md'')\<lparr>Url := ''/x'', Dir := ''posts''\<rparr>"

definition urlPage :: Page where
  "urlPage = (newPage ''content/posts/a.md'')
     \<lparr>Url := ''/about/'', Slug := ''s'', Dir := ''posts'', Permalinks := [''posts'' \<mapsto> ''/p/'']\<rparr>"

definition permalinkPage :: Page where
  "permalinkPage = (newPage ''content/posts/a.md'')
     \<lparr>Slug := ''s'', Dir := ''posts'', Permalinks := [''posts'' \<mapsto> ''/p/'']\<rparr>"

definition slugPage :: Page where
  "slugPage = (newPage ''content/posts/a.md'')
     \<lparr>Slug := ''s'', Dir := ''posts'', Permalinks := [''posts'' \<mapsto> '''']\<rparr>"

definition filePage :: Page where
  "filePage = (newPage ''content/posts/a.md'')\<lparr>Dir := ''posts''\<rparr>"

definition sampleBody :: string where
  "sampleBody = ''<p>hello <b>world</b> again</p>''"

definition sampleRead :: Page where
  "sampleRead = analyzePage id sampleTotalWords
     ((newPage ''content/posts/a.md'')\<lparr>rawContent := sampleBody\<rparr>)"

section \<open>commands/hugo.go: the watcher's event loop\<close>

text \<open>
  What one pass of the loop in \<open>newWatcher\<close> does to the outside world is recorded as
  a list of effects, in the order of the calls.
\<close>

datatype Effect =
    Debounce_fullRebuild
  | Call_fullRebuild
  | Call_loadConfig
  | Call_recreateAndBuildSites
  | Watcher_Add string
  | Call_copyStatic
  | StopOnErr
  | SyncsStaticEvents "Event list"
  | Log_ERROR
  | RefreshPath string
  | ForceRefresh
  | RebuildSites "Event list"
  | NavigateToPathForPort string int

text \<open>
  The collaborators of the loop and the configuration it reads: the set of config
  files, the symbolic link mappings of \<open>Hugo.ContentChanges\<close>, the static syncer, the
  source file system (\<open>StatIsDir\<close> holds when \<open>Stat\<close> succeeds on a directory;
  \<open>SymbolicWalk\<close> lists the entries a walk visits, each with its \<open>IsDir\<close>), the
  outcomes of the calls that can fail, and the flags.
\<close>

record WatchEnv =
  configSet :: "string \<Rightarrow> bool"
  GetSymbolicLinkMappings :: "string \<Rightarrow> string list"
  isStatic :: "string \<Rightarrow> bool"
  StatIsDir :: "string \<Rightarrow> bool"
  SymbolicWalk :: "string \<Rightarrow> (string \<times> bool) list"
  watcherAddFails :: "string \<Rightarrow> bool"
  MakeStaticPathRelative :: "string \<Rightarrow> string"
  GetContentPage :: "string \<Rightarrow> (string \<times> int) option"
  buildWatch :: bool
  forceSyncStatic :: bool
  disableLiveReload :: bool
  navigateToChanged :: bool
  loadConfigFails :: bool
  recreateAndBuildSitesFails :: bool
  copyStaticFails :: bool
  syncsStaticEventsFails :: "Event list \<Rightarrow> bool"
  rebuildSitesFails :: "Event list \<Rightarrow> bool"

text \<open>\<open>fullRebuild\<close>: reload the configuration, rebuild the sites, refresh the browsers.\<close>

definition fullRebuild :: "WatchEnv \<Rightarrow> Effect list" where
  "fullRebuild env =
     (if loadConfigFails env then [Call_loadConfig, Log_ERROR]
      else if recreateAndBuildSitesFails env
           then [Call_loadConfig, Call_recreateAndBuildSites, Log_ERROR]
      else if \<not> buildWatch env \<and> \<not> disableLiveReload env
           then [Call_loadConfig, Call_recreateAndBuildSites, ForceRefresh]
      else [Call_loadConfig, Call_recreateAndBuildSites])"

text \<open>
  The first loop over the batch. An event on a config file is skipped when it carries
  the Chmod bit; otherwise \<open>fullRebuild\<close> runs and \<open>break\<close> leaves this loop, with
  the events gathered so far in \<open>filtered\<close>. Any other event is rewritten through the
  symbolic link mappings of its path or of its directory.
\<close>

fun filterLoop :: "WatchEnv \<Rightarrow> Event list \<Rightarrow> Event list \<Rightarrow> Effect list \<times> Event list" where
  "filterLoop env [] filtered = ([], filtered)"
| "filterLoop env (ev # evs) filtered =
     (if configSet env (Name ev) then
        (if Op ev AND Chmod = Chmod then filterLoop env evs filtered
         else (Call_fullRebuild # fullRebuild env, filtered))
      else if length (GetSymbolicLinkMappings env (Name ev)) > 0 then
        filterLoop env evs
          (filtered @ map (\<lambda>mapped. \<lparr>Name = mapped, Op = Op ev\<rparr>)
                        (GetSymbolicLinkMappings env (Name ev)))
      else if length (GetSymbolicLinkMappings env (fst (path_Split (Name ev)))) = 0 then
        filterLoop env evs (filtered @ [ev])
      else
        filterLoop env evs
          (filtered @ map (\<lambda>mapped. \<lparr>Name = path_Join [mapped, snd (path_Split (Name ev))],
                                      Op = Op ev\<rparr>)
                        (GetSymbolicLinkMappings env (fst (path_Split (Name ev))))))"

text \<open>The temporary-file test of the second loop.\<close>

definition istemp :: "string \<Rightarrow> bool" where
  "istemp name =
     (let ext = filepath_Ext name; baseName = filepath_Base name
      in HasSuffix ext ''~'' \<or> ext = ''.swp'' \<or> ext = ''.swx'' \<or> ext = ''.tmp'' \<or>
         ext = ''.DS_Store'' \<or> baseName = ''4913'' \<or> HasPrefix ext ''.goutputstream'' \<or>
         HasSuffix ext ''jb_old___'' \<or> HasSuffix ext ''jb_tmp___'' \<or>
         HasSuffix ext ''jb_bak___'' \<or> HasPrefix ext ''.sb-'' \<or>
         HasPrefix baseName ''.#'' \<or> HasPrefix baseName ''#'')"

text \<open>
  \<open>walkAdder\<close> over the entries of a walk: a directory is added to the watcher, and
  an error of \<open>watcher.Add\<close> ends the walk; a file that is not static becomes a Create
  event in \<open>dynamicEvents\<close>.
\<close>

fun walkAdder :: "WatchEnv \<Rightarrow> (string \<times> bool) list \<Rightarrow> Effect list \<times> Event list" where
  "walkAdder env [] = ([], [])"
| "walkAdder env ((path, isDir) # rest) =
     (if isDir then
        (if watcherAddFails env path then ([Watcher_Add path], [])
         else (Watcher_Add path # fst (walkAdder env rest), snd (walkAdder env rest)))
      else if \<not> isStatic env path then
        (fst (walkAdder env rest), \<lparr>Name = path, Op = Create\<rparr> # snd (walkAdder env rest))
      else walkAdder env rest)"

text \<open>
  The second loop: temporary files, the empty name and Chmod-only events are dropped, a
  created directory is walked, and the event goes to \<open>staticEvents\<close> or to
  \<open>dynamicEvents\<close>. The result is the effects, \<open>staticEvents\<close> and \<open>dynamicEvents\<close>.
\<close>

fun classifyLoop :: "WatchEnv \<Rightarrow> Event list \<Rightarrow> Effect list \<times> Event list \<times> Event list" where
  "classifyLoop env [] = ([], [], [])"
| "classifyLoop env (ev # evs) =
     (case classifyLoop env evs of (fx, staticEvents, dynamicEvents) \<Rightarrow>
        if istemp (Name ev) then (fx, staticEvents, dynamicEvents)
        else if Name ev = '''' then (fx, staticEvents, dynamicEvents)
        else if Op ev AND (Chmod OR Write OR Create) = Chmod then (fx, staticEvents, dynamicEvents)
        else
          (case (if Op ev AND Create = Create \<and> StatIsDir env (Name ev)
                 then walkAdder env (SymbolicWalk env (Name ev)) else ([], [])) of
             (wfx, wdyn) \<Rightarrow>
               if isStatic env (Name ev)
               then (wfx @ fx, ev # staticEvents, wdyn @ dynamicEvents)
               else (wfx @ fx, staticEvents, wdyn @ ev # dynamicEvents)))"

text \<open>
  How a block ends: the pass goes on, \<open>continue\<close> abandons it, or \<open>StopOnErr\<close> has
  ended the process.
\<close>

datatype Flow = Proceed | Continue | Exit

text \<open>The block \<open>if len(staticEvents) > 0\<close>.\<close>

definition handleStatic :: "WatchEnv \<Rightarrow> Event list \<Rightarrow> Effect list \<times> Flow" where
  "handleStatic env staticEvents =
     (if length staticEvents > 0 then
        (case (if forceSyncStatic env then
                 (if copyStaticFails env then ([Call_copyStatic, StopOnErr], Exit)
                  else ([Call_copyStatic], Proceed))
               else
                 (if syncsStaticEventsFails env staticEvents
                  then ([SyncsStaticEvents staticEvents, Log_ERROR], Continue)
                  else ([SyncsStaticEvents staticEvents], Proceed))) of
           (fx, flow) \<Rightarrow>
             if flow \<noteq> Proceed then (fx, flow)
             else if \<not> buildWatch env \<and> \<not> disableLiveReload env then
               (if length staticEvents > 0
                then (fx @ map (\<lambda>ev. RefreshPath (MakeStaticPathRelative env (Name ev)))
                             staticEvents, Proceed)
                else (fx @ [ForceRefresh], Proceed))
             else (fx, Proceed))
      else ([], Proceed))"

text \<open>The block \<open>if len(dynamicEvents) > 0\<close>.\<close>

definition handleDynamic :: "WatchEnv \<Rightarrow> Event list \<Rightarrow> Effect list" where
  "handleDynamic env dynamicEvents =
     (if length dynamicEvents > 0 then
        (let doLiveReload = (\<not> buildWatch env \<and> \<not> disableLiveReload env);
             onePageName = pickOneWriteOrCreatePath dynamicEvents;
             fx = RebuildSites dynamicEvents #
                    (if rebuildSitesFails env dynamicEvents then [Log_ERROR] else [])
         in if doLiveReload then
              (case (if navigateToChanged env
                     then (if onePageName \<noteq> '''' then GetContentPage env onePageName else None)
                     else None) of
                 Some (relPermalink, port) \<Rightarrow> fx @ [NavigateToPathForPort relPermalink port]
               | None \<Rightarrow> fx @ [ForceRefresh])
            else fx)
      else [])"

text \<open>
  The parts of a pass over a batch below the threshold, by name: the effects of the
  first loop and the events it keeps, then what the second loop makes of them.
\<close>

definition batchFiltered :: "WatchEnv \<Rightarrow> Event list \<Rightarrow> Event list" where
  "batchFiltered env evs = snd (filterLoop env evs [])"

definition batchStatic :: "WatchEnv \<Rightarrow> Event list \<Rightarrow> Event list" where
  "batchStatic env evs = fst (snd (classifyLoop env (batchFiltered env evs)))"

definition batchDynamic :: "WatchEnv \<Rightarrow> Event list \<Rightarrow> Event list" where
  "batchDynamic env evs = snd (snd (classifyLoop env (batchFiltered env evs)))"

text \<open>
  One pass of the loop on a batch \<open>evs\<close> received from \<open>watcher.Events\<close>. More than 50
  events: the full rebuild is handed to the debouncer and \<open>continue\<close> ends the pass.
\<close>

definition newWatcher_batch :: "WatchEnv \<Rightarrow> Event list \<Rightarrow> Effect list" where
  "newWatcher_batch env evs =
     (if length evs > 50 then [Debounce_fullRebuild]
      else
        fst (filterLoop env evs []) @
        fst (classifyLoop env (batchFiltered env evs)) @
        fst (handleStatic env (batchStatic env evs)) @
        (if snd (handleStatic env (batchStatic env evs)) = Proceed
         then handleDynamic env (batchDynamic env evs) else []))"

text \<open>
  Modelled from the spec: the debouncer behind \<open>c.debounce\<close> is created outside the
  files at hand. By its contract a trigger schedules the action to run once after an
  idle window with no further trigger, and a trigger during the window restarts the
  window. The state is whether an action is pending; the result counts the runs of the
  action over a sequence of triggers and elapsed windows.
\<close>

datatype DebounceInput = Trigger | WindowElapsed

fun debounceRuns :: "bool \<Rightarrow> DebounceInput list \<Rightarrow> nat" where
  "debounceRuns pending [] = 0"
| "debounceRuns pending (Trigger # rest) = debounceRuns True rest"
| "debounceRuns pending (WindowElapsed # rest) =
     (if pending then 1 else 0) + debounceRuns False rest"

text \<open>The triggers a pass sends to the debouncer, followed by the end of the idle window.\<close>

definition debounceInputs :: "Effect list \<Rightarrow> DebounceInput list" where
  "debounceInputs fx = map (\<lambda>_. Trigger) (filter (\<lambda>e. e = Debounce_fullRebuild) fx) @ [WindowElapsed]"

text \<open>Concrete environments and batches.\<close>

definition sampleEnv :: WatchEnv where
  "sampleEnv =
     \<lparr>configSet = (\<lambda>p. p = ''config.toml''),
      GetSymbolicLinkMappings = (\<lambda>p. []),
      isStatic = (\<lambda>p. HasPrefix p ''static/''),
      StatIsDir = (\<lambda>p. False),
      SymbolicWalk = (\<lambda>p. []),
      watcherAddFails = (\<lambda>p. False),
      MakeStaticPathRelative = (\<lambda>p. drop 7 p),
      GetContentPage = (\<lambda>p. None),
      buildWatch = False, forceSyncStatic = False, disableLiveReload = False,
      navigateToChanged = False, loadConfigFails = False, recreateAndBuildSitesFails = False,
      copyStaticFails = False, syncsStaticEventsFails = (\<lambda>evs. False),
      rebuildSitesFails = (\<lambda>evs. False)\<rparr>"

definition configBatch :: "Event list" where
  "configBatch =
     [\<lparr>Name = ''content/a.md'', Op = Write\<rparr>,
      \<lparr>Name = ''config.toml'', Op = Write\<rparr>,
      \<lparr>Name = ''content/b.md'', Op = Write\<rparr>]"

definition staticBatch :: "Event list" where
  "staticBatch =
     [\<lparr>Name = ''static/css/a.css'', Op = Write\<rparr>,
      \<lparr>Name = ''static/js/b.js'', Op = Create\<rparr>]"

definition stormBatch :: "Event list" where
  "stormBatch = map (\<lambda>i. \<lparr>Name = ''content/p'' @ replicate i CHR ''x'' @ ''.md'', Op = Create\<rparr>) [0..<60]"

section \<open>commands/hugo.go: fullBuild\<close>

text \<open>
  \<open>fullBuild\<close> runs two tasks, \<open>copyStaticFunc\<close> and \<open>buildSitesFunc\<close>. What they do
  is recorded as build events; the last event of a task is its return, with its error.
\<close>

datatype Task = CopyStaticTask | BuildSitesTask

datatype BuildEvent =
    SyncStatic string bool
  | CopyStaticReturns "error option"
  | Call_initSites
  | Call_HugoBuild
  | BuildSitesReturns "error option"

fun taskOf :: "BuildEvent \<Rightarrow> Task" where
  "taskOf (SyncStatic publishDir delete) = CopyStaticTask"
| "taskOf (CopyStaticReturns r) = CopyStaticTask"
| "taskOf Call_initSites = BuildSitesTask"
| "taskOf Call_HugoBuild = BuildSitesTask"
| "taskOf (BuildSitesReturns r) = BuildSitesTask"

text \<open>
  A static directory configuration with what its file system and its sync will answer:
  \<open>CreateStaticFs\<close> fails, there is no static directory, \<open>syncer.Sync\<close> fails, or the
  sync succeeds with a count of \<open>Stat\<close> calls.
\<close>

datatype SyncOutcome =
    CreateStaticFsFails error
  | NoStaticFs
  | SyncFails error
  | Synced "64 word"

record Dirs =
  Language :: "string option"
  outcome :: SyncOutcome

record SiteStats =
  Lang :: string
  Static :: "64 word"
  Cleaned :: "64 word"

record BuildEnv =
  cleanDestinationDir :: bool
  staticDirsConfig :: "Dirs list"
  languages :: "string list"
  PublishDir :: string
  initSitesResult :: "error option"
  HugoBuildResult :: "error option"
  gc :: bool
  GCResult :: "error + int"
  Sites :: "SiteStats list"

text \<open>
  \<open>copyStaticTo\<close>: \<open>syncer.Delete\<close> is the flag \<open>cleanDestinationDir\<close>, and the delete
  pass is part of \<open>syncer.Sync\<close>. The number of files is the \<open>Stat\<close> count over 3.
\<close>

definition copyStaticTo :: "BuildEnv \<Rightarrow> Dirs \<Rightarrow> string \<Rightarrow> BuildEvent list \<times> (error + 64 word)" where
  "copyStaticTo env dirs publishDir0 =
     (let publishDir1 = (if publishDir0 = ''//'' then ''/'' else publishDir0);
          publishDir = (case Language dirs of None \<Rightarrow> publishDir1
                        | Some lang \<Rightarrow> path_Join [publishDir1, lang])
      in case outcome dirs of
           CreateStaticFsFails err \<Rightarrow> ([], Inl err)
         | NoStaticFs \<Rightarrow> ([], Inr 0)
         | SyncFails err \<Rightarrow> ([SyncStatic publishDir (cleanDestinationDir env)], Inl err)
         | Synced statCounter \<Rightarrow>
             ([SyncStatic publishDir (cleanDestinationDir env)], Inr (statCounter div 3)))"

text \<open>\<open>doWithPublishDirs(c.copyStaticTo)\<close>, the body of \<open>copyStatic\<close>, with \<open>langCount\<close>.\<close>

fun doWithPublishDirs ::
  "BuildEnv \<Rightarrow> Dirs list \<Rightarrow> (string \<rightharpoonup> 64 word) \<Rightarrow>
   BuildEvent list \<times> (string \<rightharpoonup> 64 word) \<times> error option" where
  "doWithPublishDirs env [] langCount = ([], langCount, None)"
| "doWithPublishDirs env (dirs # rest) langCount =
     (case copyStaticTo env dirs (PublishDir env) of
        (fx, Inl err) \<Rightarrow> (fx, langCount, Some err)
      | (fx, Inr cnt) \<Rightarrow>
          (let langCount' =
                 (case Language dirs of
                    None \<Rightarrow> fold (\<lambda>l m. m(l \<mapsto> cnt)) (languages env) langCount
                  | Some lang \<Rightarrow> langCount(lang \<mapsto> cnt))
           in case doWithPublishDirs env rest langCount' of
                (fx', m, r) \<Rightarrow> (fx @ fx', m, r)))"

definition copyStatic :: "BuildEnv \<Rightarrow> BuildEvent list \<times> (string \<rightharpoonup> 64 word) \<times> error option" where
  "copyStatic env = doWithPublishDirs env (staticDirsConfig env) Map.empty"

fun errorText :: "error \<Rightarrow> string" where
  "errorText (Err s) = s"

text \<open>
  The two closures of \<open>fullBuild\<close>: their events, ending with the return, and their
  error. \<open>copyStaticFunc\<close> assigns \<open>langCount\<close> only when the copy succeeded.
\<close>

definition copyStaticResult :: "BuildEnv \<Rightarrow> error option" where
  "copyStaticResult env =
     (case snd (snd (copyStatic env)) of
        Some err \<Rightarrow> Some (Err (''Error copying static files: '' @ errorText err))
      | None \<Rightarrow> None)"

definition copyStaticEvents :: "BuildEnv \<Rightarrow> BuildEvent list" where
  "copyStaticEvents env = fst (copyStatic env) @ [CopyStaticReturns (copyStaticResult env)]"

definition copyStaticLangCount :: "BuildEnv \<Rightarrow> (string \<rightharpoonup> 64 word)" where
  "copyStaticLangCount env =
     (if copyStaticResult env = None then fst (snd (copyStatic env)) else Map.empty)"

definition buildSites :: "BuildEnv \<Rightarrow> BuildEvent list \<times> error option" where
  "buildSites env =
     (case initSitesResult env of
        Some err \<Rightarrow> ([Call_initSites], Some err)
      | None \<Rightarrow> ([Call_initSites, Call_HugoBuild], HugoBuildResult env))"

definition buildSitesResult :: "BuildEnv \<Rightarrow> error option" where
  "buildSitesResult env =
     (case snd (buildSites env) of
        Some err \<Rightarrow> Some (Err (''Error building site: '' @ errorText err))
      | None \<Rightarrow> None)"

definition buildSitesEvents :: "BuildEnv \<Rightarrow> BuildEvent list" where
  "buildSitesEvents env = fst (buildSites env) @ [BuildSitesReturns (buildSitesResult env)]"

text \<open>
  Two goroutines started with \<open>g.Go\<close> run interleaved. The scheduler's choices are the
  list \<open>sched\<close>: each entry names the task that takes the next step; when one task is
  done or the list is used up, the rest runs in order.
\<close>

fun interleave :: "Task list \<Rightarrow> BuildEvent list \<Rightarrow> BuildEvent list \<Rightarrow> BuildEvent list" where
  "interleave sched [] ys = ys"
| "interleave sched xs [] = xs"
| "interleave [] xs ys = xs @ ys"
| "interleave (CopyStaticTask # sched) (x # xs) ys = x # interleave sched xs ys"
| "interleave (BuildSitesTask # sched) xs (y # ys) = y # interleave sched xs ys"

text \<open>
  \<open>g.Wait()\<close> of errgroup waits for both tasks and returns the error of the first task
  that returned one: the first return event with an error in the trace.
\<close>

fun firstError :: "BuildEvent list \<Rightarrow> error option" where
  "firstError [] = None"
| "firstError (CopyStaticReturns (Some err) # rest) = Some err"
| "firstError (BuildSitesReturns (Some err) # rest) = Some err"
| "firstError (e # rest) = firstError rest"

text \<open>The end of \<open>fullBuild\<close>: the static counts per site, then the optional GC.\<close>

definition finishBuild :: "BuildEnv \<Rightarrow> SiteStats list \<times> error option" where
  "finishBuild env =
     (let sites1 = map (\<lambda>s. s\<lparr>Static := (case copyStaticLangCount env (Lang s) of
                                              None \<Rightarrow> 0 | Some n \<Rightarrow> n)\<rparr>) (Sites env)
      in if gc env then
           (case GCResult env of
              Inl err \<Rightarrow> (sites1, Some err)
            | Inr count \<Rightarrow> (map (\<lambda>s. s\<lparr>Cleaned := word_of_int count\<rparr>) sites1, None))
         else (sites1, None))"

text \<open>\<open>fullBuild\<close>: the trace of build events, the sites' statistics and the error.\<close>

definition fullBuild :: "BuildEnv \<Rightarrow> Task list \<Rightarrow> BuildEvent list \<times> SiteStats list \<times> error option" where
  "fullBuild env sched =
     (if cleanDestinationDir env then
        (case copyStaticResult env of
           Some err \<Rightarrow> (copyStaticEvents env, Sites env, Some err)
         | None \<Rightarrow>
             (case buildSitesResult env of
                Some err \<Rightarrow> (copyStaticEvents env @ buildSitesEvents env, Sites env, Some err)
              | None \<Rightarrow> (copyStaticEvents env @ buildSitesEvents env, finishBuild env)))
      else
        (let trace = interleave sched (copyStaticEvents env) (buildSitesEvents env)
         in case firstError trace of
              Some err \<Rightarrow> (trace, Sites env, Some err)
            | None \<Rightarrow> (trace, finishBuild env)))"

text \<open>Concrete build environments and a schedule.\<close>

definition cleanEnv :: BuildEnv where
  "cleanEnv =
     \<lparr>cleanDestinationDir = True,
      staticDirsConfig = [\<lparr>Language = None, outcome = Synced 12\<rparr>],
      languages = [''en''], PublishDir = ''public'',
      initSitesResult = None, HugoBuildResult = None, gc = False, GCResult = Inr 0,
      Sites = [\<lparr>Lang = ''en'', Static = 0, Cleaned = 0\<rparr>]\<rparr>"

definition failingEnv :: BuildEnv where
  "failingEnv =
     \<lparr>cleanDestinationDir = False,
      staticDirsConfig = [\<lparr>Language = None, outcome = SyncFails (Err ''disk full'')\<rparr>],
      languages = [''en''], PublishDir = ''public'',
      initSitesResult = None, HugoBuildResult = Some (Err ''bad template''),
      gc = False, GCResult = Inr 0,
      Sites = [\<lparr>Lang = ''en'', Static = 0, Cleaned = 0\<rparr>]\<rparr>"

definition buildFirst :: "Task list" where
  "buildFirst = [BuildSitesTask, BuildSitesTask, BuildSitesTask]"

text \<open>The error carried by a return event.\<close>

fun returnedError :: "BuildEvent \<Rightarrow> error option" where
  "returnedError (CopyStaticReturns r) = r"
| "returnedError (BuildSitesReturns r) = r"
| "returnedError e = None"

section \<open>src/unnamed/part_000 (package hugolib): the page rendering pipeline\<close>

text \<open>
  The data of the renderer. A time stamp is a number, 0 the zero time. Of the pages
  listed in a page output only the two time stamps are read here. A pager carries what
  its methods answer: \<open>TotalPages()\<close> and \<open>page(0)\<close>, \<open>None\<close> for \<open>nil\<close>.
\<close>

type_synonym Time = int

record OutputFormat =
  FormatName :: string

record SubPage =
  SubDate :: Time
  SubLastmod :: Time

record Pager =
  TotalPages :: int
  page0 :: "SubPage option"

record PageOutput =
  Kind :: string
  Title :: string
  Date :: Time
  Lastmod :: Time
  Pages :: "SubPage list"
  DataPages :: "SubPage list option"
  paginator :: "Pager option"
  outputFormat :: OutputFormat

text \<open>
  The page as the renderer reads it, and the part of it that the workers write: the
  \<open>sync.Once\<close> \<open>pageOutputInit\<close>, as the flag that it has fired, and \<open>mainPageOutput\<close>.
\<close>

record RenderPage =
  outputFormats :: "OutputFormat list"
  selfLayout :: string


datatype RenderEffect =
    Call_newPageOutput bool string
  | RenderLog_ERROR
  | RenderAndWritePage string string PageOutput "string list"
  | RenderAndWriteXML string string PageOutput "string list"
  | WriteDestAlias string string
  | SendResult error
  | Panic


text \<open>
  The site's configuration and the methods defined outside the files at hand, with the
  two kind constants. A method returning a value and an error whose value is used
  although the error is dropped returns the pair.
\<close>

record RenderEnv =
  kindRSS :: string
  KindTaxonomy :: string
  isEnabled :: "string \<Rightarrow> bool"
  disableRSS :: bool
  rssLimit :: int
  paginatePath :: string
  layoutHandler_For :: "PageOutput \<Rightarrow> error + string list"
  targetPath :: "PageOutput \<Rightarrow> string list \<Rightarrow> string \<times> error option"
  createTargetPath :: "PageOutput \<Rightarrow> OutputFormat \<Rightarrow> string \<Rightarrow> error + string"
  Permalink :: "PageOutput \<Rightarrow> string"
  writeDestAlias :: "string \<Rightarrow> string \<Rightarrow> error option"
  Pagers :: "Pager \<Rightarrow> Pager list"
  page_layouts :: "PageOutput \<Rightarrow> error + string list"
  site_layouts :: "PageOutput option \<Rightarrow> error + string list"
  renderAndWritePage :: "string \<Rightarrow> string \<Rightarrow> PageOutput \<Rightarrow> string list \<Rightarrow> error option"
  renderAndWriteXML :: "string \<Rightarrow> string \<Rightarrow> PageOutput \<Rightarrow> string list \<Rightarrow> error option"
  newPageOutput :: "RenderPage \<Rightarrow> bool \<Rightarrow> OutputFormat \<Rightarrow> PageOutput option \<times> error option"
  IsNode :: "PageOutput \<Rightarrow> bool"
  FullFilePath :: "PageOutput \<Rightarrow> string"




text \<open>
  \<open>renderRSS\<close> writes to the page output it is given; the result is the effects, the
  page output as it is left, and the error.
\<close>

definition renderRSS :: "RenderEnv \<Rightarrow> PageOutput \<Rightarrow> RenderEffect list \<times> PageOutput \<times> error option" where
  "renderRSS s p =
     (if \<not> isEnabled s (kindRSS s) then ([], p, None)
      else if disableRSS s then ([], p, None)
      else
        (let p1 = p\<lparr>Kind := kindRSS s\<rparr>;
             p2 = (if Kind p1 = KindTaxonomy s then p1\<lparr>Date := 0\<rparr> else p1);
             limit = rssLimit s;
             p3 = (if limit \<ge> 0 \<and> int (length (Pages p2)) > limit
                   then p2\<lparr>Pages := take (nat limit) (Pages p2),
                           DataPages := Some (take (nat limit) (Pages p2))\<rparr>
                   else p2)
         in case layoutHandler_For s p3 of
              Inl err \<Rightarrow> ([], p3, Some err)
            | Inr layouts \<Rightarrow>
                (case targetPath s p3 [] of
                   (tp, Some err) \<Rightarrow> ([], p3, Some err)
                 | (tp, None) \<Rightarrow>
                     ([RenderAndWriteXML (Title p3) tp p3 layouts], p3,
                      renderAndWriteXML s (Title p3) tp p3 layouts))))"

















text \<open>A concrete site and page output, and a once that has not fired.\<close>

definition samplePagers :: "Pager list" where
  "samplePagers =
     [\<lparr>TotalPages = 3, page0 = Some \<lparr>SubDate = 30, SubLastmod = 31\<rparr>\<rparr>,
      \<lparr>TotalPages = 3, page0 = Some \<lparr>SubDate = 20, SubLastmod = 21\<rparr>\<rparr>,
      \<lparr>TotalPages = 3, page0 = Some \<lparr>SubDate = 10, SubLastmod = 11\<rparr>\<rparr>]"

definition sampleOutput :: PageOutput where
  "sampleOutput =
     \<lparr>Kind = ''section'', Title = ''Blog'', Date = 40, Lastmod = 41,
      Pages = [\<lparr>SubDate = 30, SubLastmod = 31\<rparr>, \<lparr>SubDate = 20, SubLastmod = 21\<rparr>,
               \<lparr>SubDate = 10, SubLastmod = 11\<rparr>],
      DataPages = None,
      paginator = Some \<lparr>TotalPages = 3, page0 = Some \<lparr>SubDate = 30, SubLastmod = 31\<rparr>\<rparr>,
      outputFormat = \<lparr>FormatName = ''HTML''\<rparr>\<rparr>"

definition sampleSite :: RenderEnv where
  "sampleSite =
     \<lparr>kindRSS = ''RSS'', KindTaxonomy = ''taxonomy'',
      isEnabled = (\<lambda>kind. True), disableRSS = False, rssLimit = 2, paginatePath = ''page'',
      layoutHandler_For = (\<lambda>p. Inr [''rss.xml'']),
      targetPath = (\<lambda>p addends. (''blog'' @ concat addends @ ''/index.html'', None)),
      createTargetPath = (\<lambda>p f addend. Inr (''blog'' @ addend @ ''/index.html'')),
      Permalink = (\<lambda>p. ''http://example.org/blog/''),
      writeDestAlias = (\<lambda>target link. None),
      Pagers = (\<lambda>pg. samplePagers),
      page_layouts = (\<lambda>p. Inr [''list.html'']),
      site_layouts = (\<lambda>p. Inr [''list.html'']),
      renderAndWritePage = (\<lambda>name tp p layouts. None),
      renderAndWriteXML = (\<lambda>name tp p layouts. None),
      newPageOutput = (\<lambda>page createCopy f. (Some (sampleOutput\<lparr>outputFormat := f\<rparr>), None)),
      IsNode = (\<lambda>p. True),
      FullFilePath = (\<lambda>p. ''blog/_index.md'')\<rparr>"















section \<open>Properties of pickOneWriteOrCreatePath\<close>

lemma earliestLongest_here:
  assumes "isWriteOrCreate ev"
    and "\<forall>x \<in> set evs. isWriteOrCreate x \<longrightarrow> length (Name x) \<le> length (Name ev)"
  shows "earliestLongest (ev # evs) (Name ev)"
  unfolding earliestLongest_def
  apply (rule exI [of _ "[]"])
  apply (rule exI [of _ ev])
  apply (rule exI [of _ evs])
  using assms apply simp
  done

lemma earliestLongest_later:
  assumes "earliestLongest evs r"
    and "isWriteOrCreate ev \<longrightarrow> length (Name ev) < length r"
  shows "earliestLongest (ev # evs) r"
proof -
  from assms(1) obtain pre e post where b: "evs = pre @ e # post" "isWriteOrCreate e"
     "r = Name e"
     "\<forall>x \<in> set pre. isWriteOrCreate x \<longrightarrow> length (Name x) < length (Name e)"
     "\<forall>x \<in> set post. isWriteOrCreate x \<longrightarrow> length (Name x) \<le> length (Name e)"
    unfolding earliestLongest_def by blast
  have c: "ev # evs = (ev # pre) @ e # post" using b(1) by simp
  have d: "\<forall>x \<in> set (ev # pre). isWriteOrCreate x \<longrightarrow> length (Name x) < length (Name e)"
    using b(3,4) assms(2) by simp
  show ?thesis
    unfolding earliestLongest_def
    apply (rule exI [of _ "ev # pre"])
    apply (rule exI [of _ e])
    apply (rule exI [of _ post])
    using b(2,3,5) c d apply simp
    done
qed

text \<open>
  The loop invariant: either the accumulator survives, and then no qualifying event has
  a longer name, or the result is strictly longer than the accumulator and sits at the
  earliest position of maximal length.
\<close>

lemma pickLoop_cases:
  "(pickLoop evs name = name \<and>
      (\<forall>x \<in> set evs. isWriteOrCreate x \<longrightarrow> length (Name x) \<le> length name))
   \<or> (length name < length (pickLoop evs name) \<and> earliestLongest evs (pickLoop evs name))"
proof (induction evs arbitrary: name)
  case Nil
  show ?case by simp
next
  case (Cons ev evs)
  show ?case
  proof (cases "isWriteOrCreate ev \<and> length (Name ev) > length name")
    case True
    then have step: "pickLoop (ev # evs) name = pickLoop evs (Name ev)" by simp
    from Cons.IH [of "Name ev"] show ?thesis
    proof
      assume a: "pickLoop evs (Name ev) = Name ev \<and>
        (\<forall>x \<in> set evs. isWriteOrCreate x \<longrightarrow> length (Name x) \<le> length (Name ev))"
      then have "earliestLongest (ev # evs) (Name ev)"
        using True earliestLongest_here by blast
      then show ?thesis using a True step by simp
    next
      assume a: "length (Name ev) < length (pickLoop evs (Name ev)) \<and>
         earliestLongest evs (pickLoop evs (Name ev))"
      then have "earliestLongest (ev # evs) (pickLoop evs (Name ev))"
        using earliestLongest_later by blast
      moreover have "length name < length (pickLoop evs (Name ev))"
        using a True by linarith
      ultimately show ?thesis using step by simp
    qed
  next
    case False
    then have step: "pickLoop (ev # evs) name = pickLoop evs name" by auto
    from Cons.IH [of name] show ?thesis
    proof
      assume a: "pickLoop evs name = name \<and>
        (\<forall>x \<in> set evs. isWriteOrCreate x \<longrightarrow> length (Name x) \<le> length name)"
      then have "\<forall>x \<in> set (ev # evs). isWriteOrCreate x \<longrightarrow> length (Name x) \<le> length name"
        using False by auto
      with a step show ?thesis by simp
    next
      assume a: "length name < length (pickLoop evs name) \<and>
         earliestLongest evs (pickLoop evs name)"
      have "isWriteOrCreate ev \<longrightarrow> length (Name ev) < length (pickLoop evs name)"
        using a False by auto
      then have "earliestLongest (ev # evs) (pickLoop evs name)"
        using a earliestLongest_later by blast
      then show ?thesis using a step by simp
    qed
  qed
qed

lemma earliestLongest_all_empty:
  assumes "\<exists>x \<in> set evs. isWriteOrCreate x"
    and "\<forall>x \<in> set evs. isWriteOrCreate x \<longrightarrow> Name x = ''''"
  shows "earliestLongest evs ''''"
  using assms
proof (induction evs)
  case Nil
  then show ?case by simp
next
  case (Cons ev evs)
  show ?case
  proof (cases "isWriteOrCreate ev")
    case True
    then have n: "Name ev = ''''" using Cons.prems(2) by simp
    have "\<forall>x \<in> set evs. isWriteOrCreate x \<longrightarrow> length (Name x) \<le> length (Name ev)"
      using Cons.prems(2) by simp
    from earliestLongest_here [OF True this] n show ?thesis by simp
  next
    case False
    then have "\<exists>x \<in> set evs. isWriteOrCreate x" using Cons.prems(1) by auto
    moreover have "\<forall>x \<in> set evs. isWriteOrCreate x \<longrightarrow> Name x = ''''"
      using Cons.prems(2) by simp
    ultimately have "earliestLongest evs ''''" using Cons.IH by blast
    then show ?thesis using False earliestLongest_later by blast
  qed
qed

text \<open>
  C9. When no event of the list carries the Write or Create bit the result is the empty
  string. Otherwise the result is the name of a qualifying event whose name is at least
  as long as that of every qualifying event, and strictly longer than that of every
  qualifying event before it in the list: the earliest of the longest. The result is a
  function of the list alone.
\<close>

theorem pickOneWriteOrCreatePath_earliest_longest:
  "((\<forall>x \<in> set events. \<not> isWriteOrCreate x) \<longrightarrow> pickOneWriteOrCreatePath events = '''') \<and>
   ((\<exists>x \<in> set events. isWriteOrCreate x) \<longrightarrow>
      (\<exists>pre e post. events = pre @ e # post \<and> isWriteOrCreate e \<and>
         pickOneWriteOrCreatePath events = Name e \<and>
         (\<forall>x \<in> set pre. isWriteOrCreate x \<longrightarrow> length (Name x) < length (Name e)) \<and>
         (\<forall>x \<in> set post. isWriteOrCreate x \<longrightarrow> length (Name x) \<le> length (Name e))))"
proof (intro conjI impI)
  assume none: "\<forall>x \<in> set events. \<not> isWriteOrCreate x"
  have "\<not> earliestLongest events r" for r
    using none unfolding earliestLongest_def by auto
  with pickLoop_cases [of events "''''"]
  show "pickOneWriteOrCreatePath events = ''''"
    unfolding pickOneWriteOrCreatePath_def by blast
next
  assume some: "\<exists>x \<in> set events. isWriteOrCreate x"
  have "earliestLongest events (pickOneWriteOrCreatePath events)"
  proof -
    from pickLoop_cases [of events "''''"] show ?thesis
    proof
      assume a: "pickLoop events '''' = '''' \<and>
        (\<forall>x \<in> set events. isWriteOrCreate x \<longrightarrow> length (Name x) \<le> length '''')"
      then have "\<forall>x \<in> set events. isWriteOrCreate x \<longrightarrow> Name x = ''''" by simp
      from earliestLongest_all_empty [OF some this] a show ?thesis
        unfolding pickOneWriteOrCreatePath_def by simp
    next
      assume "length '''' < length (pickLoop events '''') \<and>
         earliestLongest events (pickLoop events '''')"
      then show ?thesis unfolding pickOneWriteOrCreatePath_def by simp
    qed
  qed
  then show "\<exists>pre e post. events = pre @ e # post \<and> isWriteOrCreate e \<and>
         pickOneWriteOrCreatePath events = Name e \<and>
         (\<forall>x \<in> set pre. isWriteOrCreate x \<longrightarrow> length (Name x) < length (Name e)) \<and>
         (\<forall>x \<in> set post. isWriteOrCreate x \<longrightarrow> length (Name x) \<le> length (Name e))"
    unfolding earliestLongest_def .
qed

lemma sampleEvents_qualifying: "\<exists>x \<in> set sampleEvents. isWriteOrCreate x"
  by (simp add: sampleEvents_def isWriteOrCreate_def Write_def Create_def Chmod_def Remove_def)

theorem pickOneWriteOrCreatePath_earliest_longest_witness:
  "(\<exists>x \<in> set sampleEvents. isWriteOrCreate x) \<and>
   pickOneWriteOrCreatePath sampleEvents = ''content/a.md'' \<and>
   (\<exists>pre e post. sampleEvents = pre @ e # post \<and> isWriteOrCreate e \<and>
      pickOneWriteOrCreatePath sampleEvents = Name e \<and>
      (\<forall>x \<in> set pre. isWriteOrCreate x \<longrightarrow> length (Name x) < length (Name e)) \<and>
      (\<forall>x \<in> set post. isWriteOrCreate x \<longrightarrow> length (Name x) \<le> length (Name e)))"
proof -
  have run: "pickOneWriteOrCreatePath sampleEvents = ''content/a.md''"
    by (simp add: pickOneWriteOrCreatePath_def sampleEvents_def isWriteOrCreate_def
        Write_def Create_def Chmod_def Remove_def)
  from pickOneWriteOrCreatePath_earliest_longest [of sampleEvents] sampleEvents_qualifying run
  show ?thesis by blast
qed

section \<open>Properties of analyzePage and ReadFrom\<close>

lemma wrap64_id: "- (2 ^ 63) \<le> k \<Longrightarrow> k < 2 ^ 63 \<Longrightarrow> wrap64 k = k"
  by (simp add: wrap64_def)

lemma sdiv_nonneg: "0 \<le> k \<Longrightarrow> 0 < l \<Longrightarrow> k sdiv l = k div (l::int)"
  by (cases "k = 0") (simp_all add: signed_divide_int_def sgn_if)

lemma fuzzy_value:
  assumes "0 \<le> w" and "w \<le> 2 ^ 63 - 213"
  shows "go_mul (go_div (go_add w 100) 100) 100 = (w div 100) * 100 + 100"
proof -
  have a: "go_add w 100 = w + 100"
    unfolding go_add_def using assms by (intro wrap64_id) simp_all
  have "(w + 100) sdiv 100 = (w + 100) div 100"
    using assms by (intro sdiv_nonneg) simp_all
  also have "\<dots> = w div 100 + 1" by simp
  finally have q: "(w + 100) sdiv 100 = w div 100 + 1" .
  have r: "0 \<le> w div 100" "w div 100 \<le> w"
    using assms(1) int_div_le_self [of w 100]
    by (simp add: pos_imp_zdiv_nonneg_iff, cases "w = 0") simp_all
  have b: "go_div (go_add w 100) 100 = w div 100 + 1"
    unfolding go_div_def a q using assms r by (intro wrap64_id) simp_all
  have s: "w div 100 * 100 \<le> w" by presburger
  show ?thesis
    unfolding b go_mul_def using assms r s by (subst wrap64_id) (simp_all add: algebra_simps)
qed

lemma reading_value:
  assumes "0 \<le> w" and "w \<le> 2 ^ 63 - 213"
  shows "go_div (go_add w 212) 213 = (w + 212) div 213"
proof -
  have a: "go_add w 212 = w + 212"
    unfolding go_add_def using assms by (intro wrap64_id) simp_all
  have q: "(w + 212) sdiv 213 = (w + 212) div 213"
    using assms by (intro sdiv_nonneg) simp_all
  have r: "0 \<le> (w + 212) div 213" "(w + 212) div 213 \<le> w + 212"
    using assms(1) by (simp_all add: pos_imp_zdiv_nonneg_iff int_div_le_self)
  show ?thesis
    unfolding go_div_def a q using assms r by (intro wrap64_id) simp_all
qed

lemma ceiling_213: "\<lceil>real_of_int w / 213\<rceil> = (w + 212) div 213"
proof -
  define z where "z = (w + 212) div 213"
  have e: "w + 212 = 213 * z + (w + 212) mod 213" by (simp add: z_def)
  have b: "0 \<le> (w + 212) mod 213" "(w + 212) mod 213 < 213" by simp_all
  have lo: "w \<le> 213 * z" using e b by linarith
  have hi0: "213 * z \<le> w + 212" using e b by linarith
  have hi: "213 * (z - 1) < w" using hi0 by (simp add: algebra_simps)
  have "real_of_int w \<le> real_of_int (213 * z)" using lo by (simp only: of_int_le_iff)
  then have u: "real_of_int w / 213 \<le> real_of_int z" by simp
  have "real_of_int (213 * (z - 1)) < real_of_int w" using hi by (simp only: of_int_less_iff)
  then have l: "real_of_int z - 1 < real_of_int w / 213" by simp
  from l u have "\<lceil>real_of_int w / 213\<rceil> = z" by (rule ceiling_unique)
  then show ?thesis by (simp add: z_def)
qed

lemma analyzePage_fields:
  "WordCount (analyzePage S T p) = T (fst (Plain S p)) \<and>
   FuzzyWordCount (analyzePage S T p) =
     go_mul (go_div (go_add (T (fst (Plain S p))) 100) 100) 100 \<and>
   ReadingTime (analyzePage S T p) = go_div (go_add (T (fst (Plain S p))) 212) 213"
  by (cases "Plain S p") (simp add: analyzePage_def)

lemma ReadFrom_Inr:
  assumes "ReadFrom parse S T buf name = Inr p"
  shows "\<exists>q. p = analyzePage S T q"
proof (cases "parse buf (newPage name)")
  case (Inl e)
  with assms show ?thesis by (simp add: ReadFrom_def split: if_splits)
next
  case (Inr q)
  with assms have "p = analyzePage S T q" by (simp add: ReadFrom_def split: if_splits)
  then show ?thesis by blast
qed

lemma analyzePage_countsDerived:
  assumes "0 \<le> WordCount (analyzePage S T p)"
    and "WordCount (analyzePage S T p) \<le> 2 ^ 63 - 213"
  shows "countsDerived (analyzePage S T p)"
proof -
  define w where "w = T (fst (Plain S p))"
  have f: "WordCount (analyzePage S T p) = w"
    "FuzzyWordCount (analyzePage S T p) = go_mul (go_div (go_add w 100) 100) 100"
    "ReadingTime (analyzePage S T p) = go_div (go_add w 212) 213"
    using analyzePage_fields [of S T p] by (simp_all add: w_def)
  have w: "0 \<le> w" "w \<le> 2 ^ 63 - 213" using assms f(1) by simp_all
  have fz: "FuzzyWordCount (analyzePage S T p) = (w div 100) * 100 + 100"
    using f(2) fuzzy_value [OF w] by simp
  have rt: "ReadingTime (analyzePage S T p) = (w + 212) div 213"
    using f(3) reading_value [OF w] by simp
  have d: "0 \<le> w div 100" using w by (simp add: pos_imp_zdiv_nonneg_iff)
  have m: "w div 100 * 100 \<le> w" "w < w div 100 * 100 + 100" by presburger+
  have dv: "100 dvd w div 100 * 100 + 100" by simp
  have pos: "0 < w div 100 * 100 + 100" using d by simp
  have up: "w div 100 * 100 + 100 \<le> w + 100" using m(1) by simp
  have z: "w = 0 \<longrightarrow> (w + 212) div 213 = 0" by simp
  show ?thesis
    unfolding countsDerived_def f(1) fz rt ceiling_213
    using dv pos up z m(2) by (intro conjI) simp_all
qed

text \<open>
  C10. After \<open>analyzePage\<close>, and so for every page that \<open>ReadFrom\<close> returns, the fuzzy
  word count is \<open>(WordCount / 100) * 100 + 100\<close>, a positive multiple of 100 above the
  word count and at most 100 above it, and the reading time is the ceiling of
  \<open>WordCount / 213\<close>, 0 for an empty page. The word count is the number of words of
  a text held in memory: it is not negative and leaves room for the addition of 212.
\<close>

theorem analyzePage_counts:
  "(0 \<le> WordCount (analyzePage StripShortcodes TotalWords p0) \<and>
    WordCount (analyzePage StripShortcodes TotalWords p0) \<le> 2 ^ 63 - 213
      \<longrightarrow> countsDerived (analyzePage StripShortcodes TotalWords p0)) \<and>
   (ReadFrom parse StripShortcodes TotalWords buf name = Inr p \<and>
    0 \<le> WordCount p \<and> WordCount p \<le> 2 ^ 63 - 213 \<longrightarrow> countsDerived p)"
proof (intro conjI impI)
  assume "0 \<le> WordCount (analyzePage StripShortcodes TotalWords p0) \<and>
    WordCount (analyzePage StripShortcodes TotalWords p0) \<le> 2 ^ 63 - 213"
  then show "countsDerived (analyzePage StripShortcodes TotalWords p0)"
    using analyzePage_countsDerived by blast
next
  assume a: "ReadFrom parse StripShortcodes TotalWords buf name = Inr p \<and>
    0 \<le> WordCount p \<and> WordCount p \<le> 2 ^ 63 - 213"
  then have "ReadFrom parse StripShortcodes TotalWords buf name = Inr p" by simp
  from ReadFrom_Inr [OF this] obtain q where "p = analyzePage StripShortcodes TotalWords q"
    by blast
  with a show "countsDerived p" using analyzePage_countsDerived by blast
qed


theorem analyzePage_counts_witness:
  "ReadFrom sampleParse id sampleTotalWords sampleBody ''content/posts/a.md'' = Inr sampleRead \<and>
   WordCount sampleRead = 3 \<and> countsDerived sampleRead"
proof -
  have r: "ReadFrom sampleParse id sampleTotalWords sampleBody ''content/posts/a.md'' = Inr sampleRead"
    by (simp add: ReadFrom_def sampleParse_def sampleRead_def sampleBody_def)
  have w: "WordCount sampleRead = 3"
    by code_simp
  have w1: "0 \<le> WordCount sampleRead" unfolding w by simp
  have w2: "WordCount sampleRead \<le> 2 ^ 63 - 213" unfolding w by simp
  have c: "countsDerived sampleRead"
    using analyzePage_counts [of id sampleTotalWords sampleRead sampleParse sampleBody
        "''content/posts/a.md''" sampleRead] r w1 w2
    by blast
  show ?thesis by (intro conjI r w c)
qed

section \<open>Properties of TargetPath\<close>

lemma TargetPath_url:
  assumes "length (TrimSpace (Url p)) > 2"
  shows "TargetPath E R p = withIndex (TrimSpace (Url p))"
  using assms by (simp add: TargetPath_def)

lemma TargetPath_permalink:
  assumes "length (TrimSpace (Url p)) \<le> 2"
    and "Permalinks p (Section p) = Some ov" and "E ov p = Inr out"
  shows "TargetPath E R p = withIndex out"
  using assms by (simp add: TargetPath_def)

lemma TargetPath_fallback:
  assumes "length (TrimSpace (Url p)) \<le> 2"
    and "Permalinks p (Section p) = None \<or>
         (\<exists>ov e. Permalinks p (Section p) = Some ov \<and> E ov p = Inl e)"
  shows "TargetPath E R p =
     path_Join [Dir p, TrimSpace
       (if length (TrimSpace (Slug p)) > 0 then TrimSpace (Slug p) @ ''.'' @ Extension p
        else R (TrimSpace (snd (path_Split (FileName p)))) (Extension p))]"
proof -
  have "(case Permalinks p (Section p) of None \<Rightarrow> None
         | Some override \<Rightarrow> (case E override p of Inl err \<Rightarrow> None | Inr outfile \<Rightarrow> Some outfile))
        = None"
    using assms(2) by auto
  then show ?thesis using assms(1) by (simp add: TargetPath_def)
qed

text \<open>
  The four branches of \<open>TargetPath\<close>, each with its guard: (1) a URL whose
  white-space-trimmed form is longer than two bytes is used, trimmed, with
  \<open>index.html\<close> appended after a trailing slash; (2) otherwise a permalink pattern
  registered for the page's section that expands without error is used, again with
  \<open>index.html\<close> after a trailing slash; (3) otherwise a slug that is not empty after
  trimming gives slug, dot and extension under the page's directory; (4) otherwise the
  file name with its extension replaced, under the page's directory.
\<close>

lemma TargetPath_branches:
  "(length (TrimSpace (Url p)) > 2 \<longrightarrow>
      TargetPath Expand replaceExtension p = withIndex (TrimSpace (Url p))) \<and>
   (length (TrimSpace (Url p)) \<le> 2 \<and> Permalinks p (Section p) = Some ov \<and>
    Expand ov p = Inr out \<longrightarrow>
      TargetPath Expand replaceExtension p = withIndex out) \<and>
   (length (TrimSpace (Url p)) \<le> 2 \<and>
    (Permalinks p (Section p) = None \<or>
     (\<exists>ov e. Permalinks p (Section p) = Some ov \<and> Expand ov p = Inl e)) \<and>
    TrimSpace (Slug p) \<noteq> '''' \<longrightarrow>
      TargetPath Expand replaceExtension p =
        path_Join [Dir p, TrimSpace (TrimSpace (Slug p) @ ''.'' @ Extension p)]) \<and>
   (length (TrimSpace (Url p)) \<le> 2 \<and>
    (Permalinks p (Section p) = None \<or>
     (\<exists>ov e. Permalinks p (Section p) = Some ov \<and> Expand ov p = Inl e)) \<and>
    TrimSpace (Slug p) = '''' \<longrightarrow>
      TargetPath Expand replaceExtension p =
        path_Join [Dir p,
          TrimSpace (replaceExtension (TrimSpace (snd (path_Split (FileName p)))) (Extension p))])"
proof (intro conjI impI)
  assume "length (TrimSpace (Url p)) > 2"
  then show "TargetPath Expand replaceExtension p = withIndex (TrimSpace (Url p))"
    by (rule TargetPath_url)
next
  assume "length (TrimSpace (Url p)) \<le> 2 \<and> Permalinks p (Section p) = Some ov \<and>
    Expand ov p = Inr out"
  then show "TargetPath Expand replaceExtension p = withIndex out"
    using TargetPath_permalink by blast
next
  assume a: "length (TrimSpace (Url p)) \<le> 2 \<and>
    (Permalinks p (Section p) = None \<or>
     (\<exists>ov e. Permalinks p (Section p) = Some ov \<and> Expand ov p = Inl e)) \<and>
    TrimSpace (Slug p) \<noteq> ''''"
  then have "TargetPath Expand replaceExtension p =
     path_Join [Dir p, TrimSpace
       (if length (TrimSpace (Slug p)) > 0 then TrimSpace (Slug p) @ ''.'' @ Extension p
        else replaceExtension (TrimSpace (snd (path_Split (FileName p)))) (Extension p))]"
    by (intro TargetPath_fallback) simp_all
  with a show "TargetPath Expand replaceExtension p =
        path_Join [Dir p, TrimSpace (TrimSpace (Slug p) @ ''.'' @ Extension p)]"
    by simp
next
  assume a: "length (TrimSpace (Url p)) \<le> 2 \<and>
    (Permalinks p (Section p) = None \<or>
     (\<exists>ov e. Permalinks p (Section p) = Some ov \<and> Expand ov p = Inl e)) \<and>
    TrimSpace (Slug p) = ''''"
  then have "TargetPath Expand replaceExtension p =
     path_Join [Dir p, TrimSpace
       (if length (TrimSpace (Slug p)) > 0 then TrimSpace (Slug p) @ ''.'' @ Extension p
        else replaceExtension (TrimSpace (snd (path_Split (FileName p)))) (Extension p))]"
    by (intro TargetPath_fallback) simp_all
  with a show "TargetPath Expand replaceExtension p =
        path_Join [Dir p,
          TrimSpace (replaceExtension (TrimSpace (snd (path_Split (FileName p)))) (Extension p))]"
    by simp
qed

lemma urlPage_facts:
  "length (TrimSpace (Url urlPage)) > 2" "TrimSpace (Url urlPage) = ''/about/''"
  by code_simp+

lemma permalinkPage_facts:
  "length (TrimSpace (Url permalinkPage)) \<le> 2"
  "Permalinks permalinkPage (Section permalinkPage) = Some ''/p/''"
  "sampleExpand ''/p/'' permalinkPage = Inr ''/p/s/''"
  by code_simp+

lemma slugPage_facts:
  "length (TrimSpace (Url slugPage)) \<le> 2"
  "Permalinks slugPage (Section slugPage) = Some ''''"
  "sampleExpand '''' slugPage = Inl (Err ''empty pattern'')"
  "TrimSpace (Slug slugPage) \<noteq> ''''"
  by code_simp+

lemma filePage_facts:
  "length (TrimSpace (Url filePage)) \<le> 2"
  "Permalinks filePage (Section filePage) = None"
  "TrimSpace (Slug filePage) = ''''"
  by code_simp+

lemma TargetPath_branches_samples:
  "TargetPath sampleExpand sampleReplaceExtension urlPage = ''/about/index.html'' \<and>
   TargetPath sampleExpand sampleReplaceExtension permalinkPage = ''/p/s/index.html'' \<and>
   TargetPath sampleExpand sampleReplaceExtension slugPage = ''posts/s.html'' \<and>
   TargetPath sampleExpand sampleReplaceExtension filePage = ''posts/a.html''"
proof (intro conjI)
  have "TargetPath sampleExpand sampleReplaceExtension urlPage = withIndex (TrimSpace (Url urlPage))"
    using TargetPath_branches [of urlPage sampleExpand sampleReplaceExtension] urlPage_facts(1)
    by blast
  also have "\<dots> = ''/about/index.html''"
    by code_simp
  finally show "TargetPath sampleExpand sampleReplaceExtension urlPage = ''/about/index.html''" .
next
  have "TargetPath sampleExpand sampleReplaceExtension permalinkPage = withIndex ''/p/s/''"
    using TargetPath_branches [of permalinkPage sampleExpand sampleReplaceExtension "''/p/''" "''/p/s/''"]
      permalinkPage_facts
    by blast
  also have "\<dots> = ''/p/s/index.html''"
    by code_simp
  finally show "TargetPath sampleExpand sampleReplaceExtension permalinkPage = ''/p/s/index.html''" .
next
  have "Permalinks slugPage (Section slugPage) = None \<or>
     (\<exists>ov e. Permalinks slugPage (Section slugPage) = Some ov \<and> sampleExpand ov slugPage = Inl e)"
    using slugPage_facts(2,3) by blast
  then have "TargetPath sampleExpand sampleReplaceExtension slugPage =
        path_Join [Dir slugPage, TrimSpace (TrimSpace (Slug slugPage) @ ''.'' @ Extension slugPage)]"
    using TargetPath_branches [of slugPage sampleExpand sampleReplaceExtension] slugPage_facts(1,4)
    by blast
  also have "\<dots> = ''posts/s.html''"
    by code_simp
  finally show "TargetPath sampleExpand sampleReplaceExtension slugPage = ''posts/s.html''" .
next
  have "TargetPath sampleExpand sampleReplaceExtension filePage =
        path_Join [Dir filePage,
          TrimSpace (sampleReplaceExtension (TrimSpace (snd (path_Split (FileName filePage))))
            (Extension filePage))]"
    using TargetPath_branches [of filePage sampleExpand sampleReplaceExtension] filePage_facts
    by blast
  also have "\<dots> = ''posts/a.html''"
    by code_simp
  finally show "TargetPath sampleExpand sampleReplaceExtension filePage = ''posts/a.html''" .
qed

text \<open>
  White space is Unicode white space: a no-break space after \<open>/x\<close> is trimmed, so is an
  ideographic space in front and a line separator behind; a continuation byte on its
  own is not a rune and stays.
\<close>

lemma TrimSpace_samples:
  "TrimSpace (''/x'' @ [CHR 0xC2, CHR 0xA0]) = ''/x''"
  "TrimSpace ([CHR 0xE3, CHR 0x80, CHR 0x80, CHR 0x09] @ ''a b'' @ [CHR 0xE2, CHR 0x80, CHR 0xA8, CHR 0x0A]) = ''a b''"
  "TrimSpace [CHR 0xC2, CHR 0xA0, CHR 0x20] = []"
  "TrimSpace (''a'' @ [CHR 0xA0]) = ''a'' @ [CHR 0xA0]"
  by code_simp+

text \<open>
  C8. The claim gives an explicit URL set on the page the first rank, and so does the
  comment that opens \<open>TargetPath\<close> in the source, ``Always use Url if it's specified''.
  The guard under that comment takes the URL only when its trimmed form is longer than
  two bytes. The page below has the URL \<open>/x\<close>, no permalink pattern and no slug: the
  code passes the URL over and writes the page to the path derived from its file name,
  \<open>posts/a.html\<close>, where the claim and the comment give \<open>/x\<close>.
\<close>

theorem TargetPath_ignores_short_url:
  "Url shortUrlPage = ''/x'' \<and>
   TargetPath sampleExpand sampleReplaceExtension shortUrlPage = ''posts/a.html'' \<and>
   TargetPath sampleExpand sampleReplaceExtension shortUrlPage \<noteq> withIndex (Url shortUrlPage)"
proof -
  have u: "Url shortUrlPage = ''/x''" by (simp add: shortUrlPage_def)
  have t: "TargetPath sampleExpand sampleReplaceExtension shortUrlPage = ''posts/a.html''"
    by code_simp
  have w: "withIndex ''/x'' = ''/x''" by code_simp
  show ?thesis unfolding t u w by simp
qed

section \<open>Properties of the watcher's event loop\<close>

text \<open>
  C3. A batch of more than 50 events does one thing: it hands the full rebuild to the
  debouncer, once. No other effect occurs, whatever the symbolic link mappings, the
  static syncer and the file system would answer, since none of them is consulted. With
  one trigger, the debouncer runs the full rebuild once when its window has elapsed.
\<close>

theorem storm_batch_debounced_once:
  assumes "length evs > 50"
  shows "newWatcher_batch env evs = [Debounce_fullRebuild] \<and>
         debounceRuns False (debounceInputs (newWatcher_batch env evs)) = 1"
proof -
  have a: "newWatcher_batch env evs = [Debounce_fullRebuild]"
    using assms by (simp add: newWatcher_batch_def)
  have "debounceRuns False (debounceInputs [Debounce_fullRebuild]) = 1"
    by (simp add: debounceInputs_def)
  with a show ?thesis by simp
qed

lemma stormBatch_length: "length stormBatch = 60"
  by (simp add: stormBatch_def)

theorem storm_batch_debounced_once_witness:
  "length stormBatch = 60 \<and>
   newWatcher_batch sampleEnv stormBatch = [Debounce_fullRebuild] \<and>
   debounceRuns False (debounceInputs (newWatcher_batch sampleEnv stormBatch)) = 1"
proof -
  have "length stormBatch > 50" using stormBatch_length by simp
  from storm_batch_debounced_once [OF this, of sampleEnv] stormBatch_length
  show ?thesis by blast
qed

text \<open>
  C1. The batch below has three events: a write to a content file, a write to the
  config file, a write to another content file. The pass calls \<open>fullRebuild\<close> once,
  drops the event after the config event, and then still rebuilds the sites for the
  content event that came before the config event: \<open>break\<close> leaves the first loop
  only, and the events gathered before it go through the rest of the pass.
\<close>

theorem config_batch_rebuilds_earlier_event:
  "newWatcher_batch sampleEnv configBatch =
     [Call_fullRebuild, Call_loadConfig, Call_recreateAndBuildSites, ForceRefresh,
      RebuildSites [\<lparr>Name = ''content/a.md'', Op = Write\<rparr>], ForceRefresh]"
  by code_simp

lemma handleStatic_empty: "handleStatic env [] = ([], Proceed)"
  by (simp add: handleStatic_def)

lemma handleStatic_synced:
  assumes "staticEvents \<noteq> []"
    and "\<not> buildWatch env" and "\<not> disableLiveReload env"
    and "if forceSyncStatic env then \<not> copyStaticFails env
         else \<not> syncsStaticEventsFails env staticEvents"
  shows "handleStatic env staticEvents =
     ((if forceSyncStatic env then [Call_copyStatic] else [SyncsStaticEvents staticEvents]) @
      map (\<lambda>ev. RefreshPath (MakeStaticPathRelative env (Name ev))) staticEvents, Proceed)"
proof (cases "forceSyncStatic env")
  case True
  with assms show ?thesis by (simp add: handleStatic_def)
next
  case False
  with assms show ?thesis by (simp add: handleStatic_def)
qed

text \<open>
  What the static block does when it gets that far: in a batch of at most 50 events
  whose static events are not empty and are synced without error, with live reload
  enabled, it emits the sync call followed by one path refresh per static event, in
  order.
\<close>

lemma static_block_refresh_per_path:
  "length evs \<le> 50 \<and> batchStatic env evs \<noteq> [] \<and>
    \<not> buildWatch env \<and> \<not> disableLiveReload env \<and>
    (if forceSyncStatic env then \<not> copyStaticFails env
     else \<not> syncsStaticEventsFails env (batchStatic env evs)) \<longrightarrow>
      newWatcher_batch env evs =
        fst (filterLoop env evs []) @ fst (classifyLoop env (batchFiltered env evs)) @
        ((if forceSyncStatic env then [Call_copyStatic]
          else [SyncsStaticEvents (batchStatic env evs)]) @
         map (\<lambda>ev. RefreshPath (MakeStaticPathRelative env (Name ev))) (batchStatic env evs)) @
        handleDynamic env (batchDynamic env evs)"
proof (intro impI)
  assume a: "length evs \<le> 50 \<and> batchStatic env evs \<noteq> [] \<and>
    \<not> buildWatch env \<and> \<not> disableLiveReload env \<and>
    (if forceSyncStatic env then \<not> copyStaticFails env
     else \<not> syncsStaticEventsFails env (batchStatic env evs))"
  then have h: "handleStatic env (batchStatic env evs) =
     ((if forceSyncStatic env then [Call_copyStatic]
       else [SyncsStaticEvents (batchStatic env evs)]) @
      map (\<lambda>ev. RefreshPath (MakeStaticPathRelative env (Name ev))) (batchStatic env evs), Proceed)"
    by (intro handleStatic_synced) simp_all
  from a have "\<not> length evs > 50" by simp
  then show "newWatcher_batch env evs =
        fst (filterLoop env evs []) @ fst (classifyLoop env (batchFiltered env evs)) @
        ((if forceSyncStatic env then [Call_copyStatic]
          else [SyncsStaticEvents (batchStatic env evs)]) @
         map (\<lambda>ev. RefreshPath (MakeStaticPathRelative env (Name ev))) (batchStatic env evs)) @
        handleDynamic env (batchDynamic env evs)"
    unfolding newWatcher_batch_def h by simp
qed

text \<open>The static block never emits a force refresh, whatever the environment and the list.\<close>

lemma handleStatic_no_force_refresh:
  "ForceRefresh \<notin> set (fst (handleStatic env staticEvents))"
proof (cases "staticEvents = []")
  case True
  then show ?thesis by (simp add: handleStatic_def)
next
  case ne: False
  show ?thesis
  proof (cases "forceSyncStatic env")
    case True
    show ?thesis
    proof (cases "copyStaticFails env")
      case True
      with ne \<open>forceSyncStatic env\<close> show ?thesis by (simp add: handleStatic_def)
    next
      case False
      with ne \<open>forceSyncStatic env\<close> show ?thesis by (auto simp add: handleStatic_def)
    qed
  next
    case False
    show ?thesis
    proof (cases "syncsStaticEventsFails env staticEvents")
      case True
      with ne \<open>\<not> forceSyncStatic env\<close> show ?thesis by (simp add: handleStatic_def)
    next
      case False
      with ne \<open>\<not> forceSyncStatic env\<close> show ?thesis by (auto simp add: handleStatic_def)
    qed
  qed
qed

text \<open>
  C6. The claim has a single force refresh emitted, instead of refreshes by path, when
  the list of static events is empty or ambiguous, and the comment over the test in the
  source says ``force refresh when more than one file''. The test under that comment is
  \<open>len(staticEvents) > 0\<close>, the same test as the one around the whole block, so its
  \<open>else\<close> branch, the only call of \<open>livereload.ForceRefresh\<close> in the block, is never
  reached. The batch below changes two static files, the sync succeeds and live reload
  is enabled: the pass emits the sync and one refresh by path for each of the two
  files, and no force refresh; and no environment and no list of static events makes
  the static block emit one.
\<close>

theorem static_block_never_force_refreshes:
  "newWatcher_batch sampleEnv staticBatch =
     [SyncsStaticEvents staticBatch, RefreshPath ''css/a.css'', RefreshPath ''js/b.js''] \<and>
   length staticBatch = 2 \<and>
   ForceRefresh \<notin> set (fst (handleStatic env staticEvents))"
proof (intro conjI)
  show "newWatcher_batch sampleEnv staticBatch =
     [SyncsStaticEvents staticBatch, RefreshPath ''css/a.css'', RefreshPath ''js/b.js'']"
    by code_simp
  show "length staticBatch = 2"
    by (simp add: staticBatch_def)
  show "ForceRefresh \<notin> set (fst (handleStatic env staticEvents))"
    by (rule handleStatic_no_force_refresh)
qed

section \<open>Properties of fullBuild\<close>

lemma doWithPublishDirs_task:
  "\<forall>e \<in> set (fst (doWithPublishDirs env ds m)). taskOf e = CopyStaticTask"
proof (induction ds arbitrary: m)
  case Nil
  show ?case by simp
next
  case (Cons d ds)
  obtain fx r where c: "copyStaticTo env d (PublishDir env) = (fx, r)"
    by (cases "copyStaticTo env d (PublishDir env)")
  have fx: "\<forall>e \<in> set fx. taskOf e = CopyStaticTask"
    using c by (auto simp: copyStaticTo_def Let_def split: SyncOutcome.splits)
  show ?case
  proof (cases r)
    case (Inl err)
    with c fx show ?thesis by simp
  next
    case (Inr cnt)
    define m' where "m' = (case Language d of
                    None \<Rightarrow> fold (\<lambda>l m. m(l \<mapsto> cnt)) (languages env) m
                  | Some lang \<Rightarrow> m(lang \<mapsto> cnt))"
    obtain fx' m2 r2 where d: "doWithPublishDirs env ds m' = (fx', m2, r2)"
      by (cases "doWithPublishDirs env ds m'") auto
    have "\<forall>e \<in> set fx'. taskOf e = CopyStaticTask"
      using Cons.IH [of m'] d by simp
    moreover have "fst (doWithPublishDirs env (d # ds) m) = fx @ fx'"
      using c Inr d by (simp add: m'_def)
    ultimately show ?thesis using fx by auto
  qed
qed

lemma copyStaticEvents_task: "\<forall>e \<in> set (copyStaticEvents env). taskOf e = CopyStaticTask"
  using doWithPublishDirs_task [of env "staticDirsConfig env" Map.empty]
  by (simp add: copyStaticEvents_def copyStatic_def)

lemma buildSitesEvents_task: "\<forall>e \<in> set (buildSitesEvents env). taskOf e = BuildSitesTask"
  by (simp add: buildSitesEvents_def buildSites_def split: option.splits)

lemma append_in_shuffles: "xs @ ys \<in> shuffles xs ys"
  by (induction xs) (simp_all add: Cons_in_shuffles_leftI)

lemma interleave_in_shuffles: "interleave sched xs ys \<in> shuffles xs ys"
proof (induction sched xs ys rule: interleave.induct)
  case (1 sched ys)
  show ?case by simp
next
  case (2 sched x xs)
  show ?case by simp
next
  case (3 x xs y ys)
  have "(x # xs) @ (y # ys) \<in> shuffles (x # xs) (y # ys)" by (rule append_in_shuffles)
  then show ?case by simp
next
  case (4 sched x xs y ys)
  then show ?case by (simp add: Cons_in_shuffles_leftI)
next
  case (5 sched x xs y ys)
  then show ?case by (simp add: Cons_in_shuffles_rightI)
qed

lemma shuffles_reachable:
  "zs \<in> shuffles xs ys \<Longrightarrow> \<exists>sched. interleave sched xs ys = zs"
proof (induction xs ys arbitrary: zs rule: shuffles.induct)
  case (1 ys)
  then have "interleave [] [] ys = zs" by simp
  then show ?case by blast
next
  case (2 xs)
  then have "interleave [] xs [] = zs" by (cases xs) simp_all
  then show ?case by blast
next
  case (3 x xs y ys)
  from 3(3) consider
      (left) zs' where "zs = x # zs'" "zs' \<in> shuffles xs (y # ys)"
    | (right) zs' where "zs = y # zs'" "zs' \<in> shuffles (x # xs) ys"
    by auto
  then show ?case
  proof cases
    case left
    from 3(1) [OF left(2)] obtain sched where "interleave sched xs (y # ys) = zs'" by blast
    then have "interleave (CopyStaticTask # sched) (x # xs) (y # ys) = zs"
      using left(1) by simp
    then show ?thesis by blast
  next
    case right
    from 3(2) [OF right(2)] obtain sched where "interleave sched (x # xs) ys = zs'" by blast
    then have "interleave (BuildSitesTask # sched) (x # xs) (y # ys) = zs"
      using right(1) by simp
    then show ?thesis by blast
  qed
qed

lemma firstError_Cons:
  "firstError (x # tr) = (case returnedError x of Some err \<Rightarrow> Some err | None \<Rightarrow> firstError tr)"
proof (cases x)
  case (CopyStaticReturns r)
  then show ?thesis by (cases r) simp_all
next
  case (BuildSitesReturns r)
  then show ?thesis by (cases r) simp_all
qed simp_all

lemma firstError_None: "firstError tr = None \<longleftrightarrow> (\<forall>x \<in> set tr. returnedError x = None)"
proof (induction tr)
  case Nil
  show ?case by simp
next
  case (Cons x tr)
  show ?case unfolding firstError_Cons using Cons.IH by (cases "returnedError x") simp_all
qed

lemma firstError_Some:
  assumes "firstError tr = Some e"
  shows "\<exists>pre ret post. tr = pre @ ret # post \<and> (\<forall>x \<in> set pre. returnedError x = None) \<and>
           returnedError ret = Some e"
  using assms
proof (induction tr)
  case Nil
  then show ?case by simp
next
  case (Cons x tr)
  show ?case
  proof (cases "returnedError x")
    case None
    then have "firstError tr = Some e" using Cons.prems by (simp add: firstError_Cons)
    then obtain pre ret post where b: "tr = pre @ ret # post"
      "\<forall>y \<in> set pre. returnedError y = None" "returnedError ret = Some e"
      using Cons.IH by blast
    have "x # tr = (x # pre) @ ret # post \<and>
       (\<forall>y \<in> set (x # pre). returnedError y = None) \<and> returnedError ret = Some e"
      using b None by simp
    then show ?thesis by blast
  next
    case (Some err)
    then have "err = e" using Cons.prems by (simp add: firstError_Cons)
    then have "x # tr = [] @ x # tr \<and>
       (\<forall>y \<in> set []. returnedError y = None) \<and> returnedError x = Some e"
      using Some by simp
    then show ?thesis by blast
  qed
qed

lemma fullBuild_sequential:
  assumes "cleanDestinationDir env"
  shows "\<exists>post. fst (fullBuild env sched) = copyStaticEvents env @ post \<and>
           (post = [] \<or> post = buildSitesEvents env) \<and>
           (copyStaticResult env \<noteq> None \<longrightarrow>
              post = [] \<and> snd (snd (fullBuild env sched)) = copyStaticResult env)"
proof (cases "copyStaticResult env")
  case None
  then have "fst (fullBuild env sched) = copyStaticEvents env @ buildSitesEvents env"
    using assms by (simp add: fullBuild_def split: option.splits)
  with None show ?thesis by simp
next
  case (Some err)
  then have "fst (fullBuild env sched) = copyStaticEvents env @ []"
    "snd (snd (fullBuild env sched)) = copyStaticResult env"
    using assms by (simp_all add: fullBuild_def)
  then show ?thesis by blast
qed

lemma fullBuild_concurrent_trace:
  assumes "\<not> cleanDestinationDir env"
  shows "fst (fullBuild env sched) = interleave sched (copyStaticEvents env) (buildSitesEvents env)"
    and "firstError (fst (fullBuild env sched)) \<noteq> None \<Longrightarrow>
           snd (snd (fullBuild env sched)) = firstError (fst (fullBuild env sched))"
  using assms by (auto simp: fullBuild_def Let_def split: option.splits)

lemma fullBuild_concurrent_error:
  assumes "\<not> cleanDestinationDir env"
    and "copyStaticResult env \<noteq> None \<or> buildSitesResult env \<noteq> None"
  shows "\<exists>pre ret post e. fst (fullBuild env sched) = pre @ ret # post \<and>
           (\<forall>x \<in> set pre. returnedError x = None) \<and> returnedError ret = Some e \<and>
           snd (snd (fullBuild env sched)) = Some e"
proof -
  let ?tr = "fst (fullBuild env sched)"
  have tr: "?tr \<in> shuffles (copyStaticEvents env) (buildSitesEvents env)"
    using fullBuild_concurrent_trace(1) [OF assms(1)] interleave_in_shuffles by simp
  have mem: "CopyStaticReturns (copyStaticResult env) \<in> set ?tr"
    "BuildSitesReturns (buildSitesResult env) \<in> set ?tr"
    using set_shuffles [OF tr] by (simp_all add: copyStaticEvents_def buildSitesEvents_def)
  have "\<exists>x \<in> set ?tr. returnedError x \<noteq> None"
  proof (cases "copyStaticResult env \<noteq> None")
    case True
    then have "returnedError (CopyStaticReturns (copyStaticResult env)) \<noteq> None" by simp
    with mem(1) show ?thesis by blast
  next
    case False
    with assms(2) have "returnedError (BuildSitesReturns (buildSitesResult env)) \<noteq> None" by simp
    with mem(2) show ?thesis by blast
  qed
  then have "firstError ?tr \<noteq> None" by (auto simp: firstError_None)
  then obtain e where e: "firstError ?tr = Some e" by auto
  then have r: "snd (snd (fullBuild env sched)) = Some e"
    using fullBuild_concurrent_trace(2) [OF assms(1)] by simp
  from firstError_Some [OF e] obtain pre ret post where
    "?tr = pre @ ret # post" "\<forall>x \<in> set pre. returnedError x = None" "returnedError ret = Some e"
    by blast
  with r show ?thesis by blast
qed

text \<open>
  C2. With \<open>cleanDestinationDir\<close> set, the trace of \<open>fullBuild\<close> is the whole trace of
  the static copy, every sync with its delete pass and the copy's return, followed by
  the events of the site build, or by nothing when the copy failed, in which case its
  error is returned: no event of the build comes before an event of the copy. With the
  flag not set the two tasks run interleaved: the trace is a shuffle of the two tasks'
  traces, every shuffle is the trace under some schedule, and when a task returns an
  error \<open>fullBuild\<close> returns the error of the first error return in the trace.
\<close>

theorem fullBuild_phases:
  "(cleanDestinationDir env \<longrightarrow>
      (\<exists>post. fst (fullBuild env sched) = copyStaticEvents env @ post \<and>
         (\<forall>e \<in> set (copyStaticEvents env). taskOf e = CopyStaticTask) \<and>
         (\<forall>e \<in> set post. taskOf e = BuildSitesTask) \<and>
         (post = [] \<or> post = buildSitesEvents env) \<and>
         (copyStaticResult env \<noteq> None \<longrightarrow>
            post = [] \<and> snd (snd (fullBuild env sched)) = copyStaticResult env))) \<and>
   (\<not> cleanDestinationDir env \<longrightarrow>
      fst (fullBuild env sched) \<in> shuffles (copyStaticEvents env) (buildSitesEvents env) \<and>
      (\<forall>zs \<in> shuffles (copyStaticEvents env) (buildSitesEvents env).
         \<exists>sched'. fst (fullBuild env sched') = zs) \<and>
      (copyStaticResult env \<noteq> None \<or> buildSitesResult env \<noteq> None \<longrightarrow>
         (\<exists>pre ret post e. fst (fullBuild env sched) = pre @ ret # post \<and>
            (\<forall>x \<in> set pre. returnedError x = None) \<and> returnedError ret = Some e \<and>
            snd (snd (fullBuild env sched)) = Some e)))"
proof (intro conjI impI)
  assume c: "cleanDestinationDir env"
  from fullBuild_sequential [OF c, of sched] obtain post where
    p: "fst (fullBuild env sched) = copyStaticEvents env @ post"
       "post = [] \<or> post = buildSitesEvents env"
       "copyStaticResult env \<noteq> None \<longrightarrow>
              post = [] \<and> snd (snd (fullBuild env sched)) = copyStaticResult env"
    by blast
  have "\<forall>e \<in> set post. taskOf e = BuildSitesTask"
    using p(2) buildSitesEvents_task by auto
  with p copyStaticEvents_task
  show "\<exists>post. fst (fullBuild env sched) = copyStaticEvents env @ post \<and>
         (\<forall>e \<in> set (copyStaticEvents env). taskOf e = CopyStaticTask) \<and>
         (\<forall>e \<in> set post. taskOf e = BuildSitesTask) \<and>
         (post = [] \<or> post = buildSitesEvents env) \<and>
         (copyStaticResult env \<noteq> None \<longrightarrow>
            post = [] \<and> snd (snd (fullBuild env sched)) = copyStaticResult env)"
    by blast
next
  assume "\<not> cleanDestinationDir env"
  then show "fst (fullBuild env sched) \<in> shuffles (copyStaticEvents env) (buildSitesEvents env)"
    using fullBuild_concurrent_trace(1) interleave_in_shuffles by simp
next
  assume c: "\<not> cleanDestinationDir env"
  show "\<forall>zs \<in> shuffles (copyStaticEvents env) (buildSitesEvents env).
         \<exists>sched'. fst (fullBuild env sched') = zs"
  proof
    fix zs assume "zs \<in> shuffles (copyStaticEvents env) (buildSitesEvents env)"
    then obtain sched' where
      "interleave sched' (copyStaticEvents env) (buildSitesEvents env) = zs"
      using shuffles_reachable by blast
    then have "fst (fullBuild env sched') = zs"
      using fullBuild_concurrent_trace(1) [OF c] by simp
    then show "\<exists>sched'. fst (fullBuild env sched') = zs" by blast
  qed
next
  assume "\<not> cleanDestinationDir env"
    and "copyStaticResult env \<noteq> None \<or> buildSitesResult env \<noteq> None"
  then show "\<exists>pre ret post e. fst (fullBuild env sched) = pre @ ret # post \<and>
            (\<forall>x \<in> set pre. returnedError x = None) \<and> returnedError ret = Some e \<and>
            snd (snd (fullBuild env sched)) = Some e"
    by (rule fullBuild_concurrent_error)
qed

lemma cleanEnv_run:
  "fullBuild cleanEnv buildFirst =
     ([SyncStatic ''public'' True, CopyStaticReturns None,
       Call_initSites, Call_HugoBuild, BuildSitesReturns None],
      [\<lparr>Lang = ''en'', Static = 4, Cleaned = 0\<rparr>], None)"
  by code_simp

lemma failingEnv_run:
  "fullBuild failingEnv buildFirst =
     ([Call_initSites, Call_HugoBuild,
       BuildSitesReturns (Some (Err ''Error building site: bad template'')),
       SyncStatic ''public'' False,
       CopyStaticReturns (Some (Err ''Error copying static files: disk full''))],
      [\<lparr>Lang = ''en'', Static = 0, Cleaned = 0\<rparr>],
      Some (Err ''Error building site: bad template''))"
  by code_simp

lemma sample_build_flags:
  "cleanDestinationDir cleanEnv" "\<not> cleanDestinationDir failingEnv"
  "copyStaticResult failingEnv \<noteq> None"
  by code_simp+

theorem fullBuild_phases_witness:
  "(\<exists>post. fst (fullBuild cleanEnv buildFirst) = copyStaticEvents cleanEnv @ post \<and>
      (\<forall>e \<in> set (copyStaticEvents cleanEnv). taskOf e = CopyStaticTask) \<and>
      (\<forall>e \<in> set post. taskOf e = BuildSitesTask)) \<and>
   fst (fullBuild cleanEnv buildFirst) =
     [SyncStatic ''public'' True, CopyStaticReturns None,
      Call_initSites, Call_HugoBuild, BuildSitesReturns None] \<and>
   fst (fullBuild failingEnv buildFirst) \<in>
     shuffles (copyStaticEvents failingEnv) (buildSitesEvents failingEnv) \<and>
   (\<exists>pre ret post e. fst (fullBuild failingEnv buildFirst) = pre @ ret # post \<and>
      (\<forall>x \<in> set pre. returnedError x = None) \<and> returnedError ret = Some e \<and>
      snd (snd (fullBuild failingEnv buildFirst)) = Some e) \<and>
   snd (snd (fullBuild failingEnv buildFirst)) = Some (Err ''Error building site: bad template'')"
proof -
  have a: "\<exists>post. fst (fullBuild cleanEnv buildFirst) = copyStaticEvents cleanEnv @ post \<and>
      (\<forall>e \<in> set (copyStaticEvents cleanEnv). taskOf e = CopyStaticTask) \<and>
      (\<forall>e \<in> set post. taskOf e = BuildSitesTask)"
    using fullBuild_phases [of cleanEnv buildFirst] sample_build_flags(1) by blast
  have b: "fst (fullBuild failingEnv buildFirst) \<in>
       shuffles (copyStaticEvents failingEnv) (buildSitesEvents failingEnv) \<and>
     (\<exists>pre ret post e. fst (fullBuild failingEnv buildFirst) = pre @ ret # post \<and>
        (\<forall>x \<in> set pre. returnedError x = None) \<and> returnedError ret = Some e \<and>
        snd (snd (fullBuild failingEnv buildFirst)) = Some e)"
    using fullBuild_phases [of failingEnv buildFirst] sample_build_flags(2,3) by blast
  have c: "fst (fullBuild cleanEnv buildFirst) =
     [SyncStatic ''public'' True, CopyStaticReturns None,
      Call_initSites, Call_HugoBuild, BuildSitesReturns None]"
    unfolding cleanEnv_run by simp
  have d: "snd (snd (fullBuild failingEnv buildFirst)) =
     Some (Err ''Error building site: bad template'')"
    unfolding failingEnv_run by simp
  from a b c d show ?thesis by blast
qed

section \<open>Properties of renderRSS\<close>

lemma renderRSS_disabled:
  assumes "\<not> isEnabled s (kindRSS s) \<or> disableRSS s"
  shows "renderRSS s p = ([], p, None)"
  using assms by (auto simp: renderRSS_def)

text \<open>The page output after the kind, the date and the limit have been applied.\<close>

lemma renderRSS_enabled:
  assumes "isEnabled s (kindRSS s)" and "\<not> disableRSS s"
  shows "\<exists>p3. Pages p3 =
           (if 0 \<le> rssLimit s \<and> rssLimit s < int (length (Pages p))
            then take (nat (rssLimit s)) (Pages p) else Pages p) \<and>
         DataPages p3 =
           (if 0 \<le> rssLimit s \<and> rssLimit s < int (length (Pages p))
            then Some (take (nat (rssLimit s)) (Pages p)) else DataPages p) \<and>
         fst (snd (renderRSS s p)) = p3 \<and>
         (fst (renderRSS s p) = [] \<or>
          (\<exists>tp layouts. fst (renderRSS s p) = [RenderAndWriteXML (Title p3) tp p3 layouts]))"
proof -
  define p2 where "p2 = (if Kind (p\<lparr>Kind := kindRSS s\<rparr>) = KindTaxonomy s
                          then p\<lparr>Kind := kindRSS s, Date := 0\<rparr> else p\<lparr>Kind := kindRSS s\<rparr>)"
  define p3 where "p3 = (if rssLimit s \<ge> 0 \<and> int (length (Pages p2)) > rssLimit s
                   then p2\<lparr>Pages := take (nat (rssLimit s)) (Pages p2),
                           DataPages := Some (take (nat (rssLimit s)) (Pages p2))\<rparr>
                   else p2)"
  have pg: "Pages p2 = Pages p" "DataPages p2 = DataPages p" by (simp_all add: p2_def)
  have r: "renderRSS s p =
     (case layoutHandler_For s p3 of
        Inl err \<Rightarrow> ([], p3, Some err)
      | Inr layouts \<Rightarrow>
          (case targetPath s p3 [] of
             (tp, Some err) \<Rightarrow> ([], p3, Some err)
           | (tp, None) \<Rightarrow>
               ([RenderAndWriteXML (Title p3) tp p3 layouts], p3,
                renderAndWriteXML s (Title p3) tp p3 layouts)))"
    using assms unfolding renderRSS_def p3_def p2_def by (simp add: Let_def)
  have a: "Pages p3 = (if 0 \<le> rssLimit s \<and> rssLimit s < int (length (Pages p))
            then take (nat (rssLimit s)) (Pages p) else Pages p)"
    unfolding p3_def using pg by simp
  have b: "DataPages p3 = (if 0 \<le> rssLimit s \<and> rssLimit s < int (length (Pages p))
            then Some (take (nat (rssLimit s)) (Pages p)) else DataPages p)"
    unfolding p3_def using pg by simp
  have c: "fst (snd (renderRSS s p)) = p3"
    unfolding r by (simp split: sum.splits prod.splits option.splits)
  have d: "fst (renderRSS s p) = [] \<or>
          (\<exists>tp layouts. fst (renderRSS s p) = [RenderAndWriteXML (Title p3) tp p3 layouts])"
    unfolding r by (simp split: sum.splits prod.splits option.splits)
  from a b c d show ?thesis by blast
qed

text \<open>
  C7. When the RSS kind is disabled for the site or \<open>disableRSS\<close> is set, \<open>renderRSS\<close>
  returns \<open>nil\<close>, renders nothing and leaves the page output as it was. Otherwise,
  when \<open>rssLimit\<close> is not negative and the page list is longer, the page list is cut to
  its first \<open>rssLimit\<close> entries, and what is rendered is the page output with the cut
  list.
\<close>

theorem renderRSS_skip_and_limit:
  "(\<not> isEnabled s (kindRSS s) \<or> disableRSS s \<longrightarrow> renderRSS s p = ([], p, None)) \<and>
   (isEnabled s (kindRSS s) \<and> \<not> disableRSS s \<and>
    0 \<le> rssLimit s \<and> rssLimit s < int (length (Pages p)) \<longrightarrow>
      Pages (fst (snd (renderRSS s p))) = take (nat (rssLimit s)) (Pages p) \<and>
      DataPages (fst (snd (renderRSS s p))) = Some (take (nat (rssLimit s)) (Pages p)) \<and>
      (\<forall>e \<in> set (fst (renderRSS s p)).
         \<exists>title tp layouts. e = RenderAndWriteXML title tp (fst (snd (renderRSS s p))) layouts))"
proof (intro conjI impI)
  assume "\<not> isEnabled s (kindRSS s) \<or> disableRSS s"
  then show "renderRSS s p = ([], p, None)" by (rule renderRSS_disabled)
next
  assume a: "isEnabled s (kindRSS s) \<and> \<not> disableRSS s \<and>
    0 \<le> rssLimit s \<and> rssLimit s < int (length (Pages p))"
  then have en: "isEnabled s (kindRSS s)" "\<not> disableRSS s"
    and lim: "0 \<le> rssLimit s \<and> rssLimit s < int (length (Pages p))" by simp_all
  from renderRSS_enabled [OF en, of p] obtain q where q0:
      "Pages q = (if 0 \<le> rssLimit s \<and> rssLimit s < int (length (Pages p))
            then take (nat (rssLimit s)) (Pages p) else Pages p)"
      "DataPages q = (if 0 \<le> rssLimit s \<and> rssLimit s < int (length (Pages p))
            then Some (take (nat (rssLimit s)) (Pages p)) else DataPages p)"
      "fst (snd (renderRSS s p)) = q"
      "fst (renderRSS s p) = [] \<or>
          (\<exists>tp layouts. fst (renderRSS s p) = [RenderAndWriteXML (Title q) tp q layouts])"
    by blast
  have q: "Pages q = take (nat (rssLimit s)) (Pages p)"
      "DataPages q = Some (take (nat (rssLimit s)) (Pages p))"
      "fst (snd (renderRSS s p)) = q"
      "fst (renderRSS s p) = [] \<or>
          (\<exists>tp layouts. fst (renderRSS s p) = [RenderAndWriteXML (Title q) tp q layouts])"
    using q0 lim by simp_all
  show "Pages (fst (snd (renderRSS s p))) = take (nat (rssLimit s)) (Pages p)"
    using q by simp
  show "DataPages (fst (snd (renderRSS s p))) = Some (take (nat (rssLimit s)) (Pages p))"
    using q by simp
  show "\<forall>e \<in> set (fst (renderRSS s p)).
         \<exists>title tp layouts. e = RenderAndWriteXML title tp (fst (snd (renderRSS s p))) layouts"
    using q(3,4) by auto
qed

lemma sampleSite_rss:
  "isEnabled sampleSite (kindRSS sampleSite)" "\<not> disableRSS sampleSite"
  "0 \<le> rssLimit sampleSite" "rssLimit sampleSite < int (length (Pages sampleOutput))"
  by (simp_all add: sampleSite_def sampleOutput_def)

theorem renderRSS_skip_and_limit_witness:
  "renderRSS (sampleSite\<lparr>disableRSS := True\<rparr>) sampleOutput = ([], sampleOutput, None) \<and>
   Pages (fst (snd (renderRSS sampleSite sampleOutput))) =
     [\<lparr>SubDate = 30, SubLastmod = 31\<rparr>, \<lparr>SubDate = 20, SubLastmod = 21\<rparr>] \<and>
   list_all (\<lambda>e. \<exists>title tp layouts.
        e = RenderAndWriteXML title tp (fst (snd (renderRSS sampleSite sampleOutput))) layouts)
     (fst (renderRSS sampleSite sampleOutput)) \<and>
   length (fst (renderRSS sampleSite sampleOutput)) = 1"
proof -
  have d: "disableRSS (sampleSite\<lparr>disableRSS := True\<rparr>)" by simp
  have a: "renderRSS (sampleSite\<lparr>disableRSS := True\<rparr>) sampleOutput = ([], sampleOutput, None)"
    using renderRSS_skip_and_limit [of "sampleSite\<lparr>disableRSS := True\<rparr>" sampleOutput] d
    by blast
  have b: "Pages (fst (snd (renderRSS sampleSite sampleOutput))) =
       take (nat (rssLimit sampleSite)) (Pages sampleOutput) \<and>
     (\<forall>e \<in> set (fst (renderRSS sampleSite sampleOutput)).
        \<exists>title tp layouts.
          e = RenderAndWriteXML title tp (fst (snd (renderRSS sampleSite sampleOutput))) layouts)"
    using renderRSS_skip_and_limit [of sampleSite sampleOutput] sampleSite_rss
    by blast
  have c: "take (nat (rssLimit sampleSite)) (Pages sampleOutput) =
     [\<lparr>SubDate = 30, SubLastmod = 31\<rparr>, \<lparr>SubDate = 20, SubLastmod = 21\<rparr>]"
    by (simp add: sampleSite_def sampleOutput_def)
  have e: "length (fst (renderRSS sampleSite sampleOutput)) = 1"
    by (simp add: renderRSS_def sampleSite_def Let_def)
  from a b c e show ?thesis by (simp add: list_all_iff)
qed

section \<open>Properties of renderPaginator\<close>
























section \<open>Properties of pageRenderer\<close>





























end
